theory Spec2Isabelle
  imports
    Main
    "HOL-Library.Char_ord"
    "HOL-Library.List_Lexorder"
    "HOL-Library.Product_Lexorder"
begin


section \<open>The record store (database.go)\<close>

text \<open>
  The store is an SQLite database with two tables. A table is modelled as the list of its
  rows in rowid order, a statement as a function from the tables to the tables and the
  statement's result. A Go \<^verbatim>\<open>error\<close> is modelled by its message (\<^verbatim>\<open>err.Error()\<close>); the
  value \<^verbatim>\<open>nil\<close> is \<open>None\<close>.

  Every call into \<^verbatim>\<open>database/sql\<close> can also fail for reasons that no table content
  explains (I/O error, locked file). Such a failure is an input of the model: an operation
  takes a \<open>fault\<close>, which is \<open>Some msg\<close> when the backend refuses the call with that
  message, and the source's \<^verbatim>\<open>if err != nil\<close> branch is the branch taken then.
\<close>

type_synonym go_error = string
type_synonym fault = "go_error option"
type_synonym bytes = "char list"

text \<open>
  A row of \<^verbatim>\<open>pictures\<close>: \<^verbatim>\<open>id TEXT PRIMARY KEY, filename TEXT, url TEXT, likes INTEGER,
  uploaded_at DATETIME\<close>. The column \<^verbatim>\<open>uploaded_at\<close> holds the text that \<^verbatim>\<open>AddPicture\<close> wrote.

  An SQLite INTEGER is a signed 64-bit number. Adding one to the largest of them gives the
  REAL 9223372036854775808.0, and adding one to that REAL gives the same REAL again. The
  column \<^verbatim>\<open>likes\<close> is modelled by an integer: a value up to \<open>max_int64\<close> is that INTEGER,
  and the value \<open>max_int64 + 1\<close> stands for the REAL.
\<close>

definition max_int64 :: int where
  "max_int64 = 9223372036854775807"

definition sqlite_add_one :: "int \<Rightarrow> int" where
  "sqlite_add_one l = (if l < max_int64 then l + 1 else max_int64 + 1)"

record picture_row =
  row_id :: string
  row_filename :: string
  row_url :: string
  row_likes :: int
  row_uploaded_at :: string

text \<open>The Go struct \<^verbatim>\<open>Picture\<close>; \<open>'t\<close> is \<^verbatim>\<open>time.Time\<close>.\<close>

record 't Picture =
  ID :: string
  Filename :: string
  URL :: string
  Likes :: int
  UploadedAt :: 't

text \<open>
  The column \<^verbatim>\<open>status\<close> of \<^verbatim>\<open>conversion_tasks\<close> only ever holds one of the four literals
  \<^verbatim>\<open>'pending'\<close> (the column default), \<^verbatim>\<open>'processing'\<close>, \<^verbatim>\<open>'completed'\<close>, \<^verbatim>\<open>'failed'\<close>.
\<close>

datatype task_status = Pending | Processing | Completed | Failed

text \<open>
  A row of \<^verbatim>\<open>conversion_tasks\<close>, which is also the Go struct \<^verbatim>\<open>ConversionTask\<close>. The two
  timestamps are written by SQLite (\<^verbatim>\<open>CURRENT_TIMESTAMP\<close>, UTC, one fixed-width format): they
  are modelled by the clock reading, a number of seconds.
\<close>

record ConversionTask =
  task_ID :: int
  OriginalPath :: string
  OriginalName :: string
  PictureID :: "string option"
  Status :: task_status
  Error :: "string option"
  CreatedAt :: nat
  UpdatedAt :: nat

record database =
  pictures :: "picture_row list"
  conversion_tasks :: "ConversionTask list"
  task_seq :: int

definition empty_database :: database where
  "empty_database = \<lparr>pictures = [], conversion_tasks = [], task_seq = 0\<rparr>"

subsection \<open>Pictures\<close>

text \<open>
  \<^verbatim>\<open>INSERT INTO pictures (...) VALUES (?, ?, ?, ?, ?)\<close> with the time rendered by
  \<^verbatim>\<open>UploadedAt.Format(time.RFC3339)\<close> (the parameter \<open>fmt\<close>). The primary key rejects
  a second row with the same id.
\<close>

definition AddPicture ::
  "fault \<Rightarrow> ('t \<Rightarrow> string) \<Rightarrow> 't Picture \<Rightarrow> database \<Rightarrow> go_error option \<times> database" where
  "AddPicture f fmt picture db =
     (case f of
        Some e \<Rightarrow> (Some e, db)
      | None \<Rightarrow>
          if ID picture \<in> set (map row_id (pictures db))
          then (Some ''UNIQUE constraint failed: pictures.id'', db)
          else (None, db\<lparr>pictures := pictures db @
                  [\<lparr>row_id = ID picture, row_filename = Filename picture,
                    row_url = URL picture, row_likes = Likes picture,
                    row_uploaded_at = fmt (UploadedAt picture)\<rparr>]\<rparr>))"

text \<open>
  What the readers get from a row. The column \<^verbatim>\<open>uploaded_at\<close> is declared \<^verbatim>\<open>DATETIME\<close>, and
  for such a column the SQLite driver does not hand the stored text to \<^verbatim>\<open>rows.Scan\<close>: it
  decodes the text into a \<^verbatim>\<open>time.Time\<close> (this is what lets \<^verbatim>\<open>ClaimNextTask\<close> scan
  \<^verbatim>\<open>created_at\<close> into a \<^verbatim>\<open>time.Time\<close>). \<^verbatim>\<open>Scan\<close> then fills the string variable
  \<^verbatim>\<open>uploadedAtStr\<close> with \<^verbatim>\<open>t.Format(time.RFC3339Nano)\<close>, and that string is what the source
  passes to \<^verbatim>\<open>time.Parse(time.RFC3339, _)\<close>. The three library functions are parameters of
  the readers.
\<close>

record 't scan_lib =
  Driver_decode :: "string \<Rightarrow> 't"
  Format_RFC3339Nano :: "'t \<Rightarrow> string"
  Parse_RFC3339 :: "string \<Rightarrow> 't option"

definition uploadedAtStr :: "'t scan_lib \<Rightarrow> picture_row \<Rightarrow> string" where
  "uploadedAtStr lib r = Format_RFC3339Nano lib (Driver_decode lib (row_uploaded_at r))"

text \<open>
  The loop body shared by the readers. \<^verbatim>\<open>rows.Scan\<close> fails when the \<^verbatim>\<open>likes\<close> column holds the
  REAL, which does not convert to a Go \<^verbatim>\<open>int\<close>; the reader then returns that error (its
  text is given here without the value it quotes). A row whose time does not parse is
  logged and skipped (\<^verbatim>\<open>continue\<close>): the result \<open>Inr None\<close>.
\<close>

definition scan_picture :: "'t scan_lib \<Rightarrow> picture_row \<Rightarrow> go_error + 't Picture option" where
  "scan_picture lib r =
     (if max_int64 < row_likes r
      then Inl ''sql: Scan error on column index 3, name likes: converting driver.Value type float64 to a int: invalid syntax''
      else
        (case Parse_RFC3339 lib (uploadedAtStr lib r) of
           None \<Rightarrow> Inr None
         | Some t \<Rightarrow> Inr (Some \<lparr>ID = row_id r, Filename = row_filename r, URL = row_url r,
                                 Likes = row_likes r, UploadedAt = t\<rparr>)))"

text \<open>
  The \<^verbatim>\<open>for rows.Next()\<close> loop of \<^verbatim>\<open>GetLastPictures\<close> and \<^verbatim>\<open>GetAllPicturesSortedByLikes\<close>.
\<close>

fun scan_rows :: "'t scan_lib \<Rightarrow> picture_row list \<Rightarrow> go_error + 't Picture list" where
  "scan_rows lib [] = Inr []"
| "scan_rows lib (r # rs) =
     (case scan_picture lib r of
        Inl err \<Rightarrow> Inl err
      | Inr None \<Rightarrow> scan_rows lib rs
      | Inr (Some p) \<Rightarrow>
          (case scan_rows lib rs of
             Inl err \<Rightarrow> Inl err
           | Inr ps \<Rightarrow> Inr (p # ps)))"

text \<open>
  \<^verbatim>\<open>ORDER BY uploaded_at DESC\<close> and \<^verbatim>\<open>ORDER BY likes DESC, uploaded_at DESC\<close>. SQLite
  compares integers as numbers and texts byte by byte (the default collation), which is the
  lexicographic order on \<open>string\<close>.
\<close>

definition order_by_uploaded_at_desc :: "picture_row list \<Rightarrow> picture_row list" where
  "order_by_uploaded_at_desc rs = rev (sort_key row_uploaded_at rs)"

definition order_by_likes_desc_uploaded_at_desc :: "picture_row list \<Rightarrow> picture_row list" where
  "order_by_likes_desc_uploaded_at_desc rs =
     rev (sort_key (\<lambda>r. (row_likes r, row_uploaded_at r)) rs)"

text \<open>
  \<^verbatim>\<open>LIMIT ?\<close>: a negative limit means no limit in SQLite. In the two readers the fault
  stands for an error of \<^verbatim>\<open>Query\<close> or of \<^verbatim>\<open>rows.Err\<close>: each makes the reader return the
  error and no list.
\<close>

definition sql_limit :: "int \<Rightarrow> 'a list \<Rightarrow> 'a list" where
  "sql_limit n rs = (if n < 0 then rs else take (nat n) rs)"


definition GetAllPicturesSortedByLikes ::
  "fault \<Rightarrow> 't scan_lib \<Rightarrow> database \<Rightarrow> go_error + 't Picture list" where
  "GetAllPicturesSortedByLikes f lib db =
     (case f of
        Some e \<Rightarrow> Inl e
      | None \<Rightarrow> scan_rows lib (order_by_likes_desc_uploaded_at_desc (pictures db)))"

text \<open>
  \<^verbatim>\<open>UPDATE pictures SET likes = likes + 1 WHERE id = ?\<close>, then \<^verbatim>\<open>RowsAffected\<close>: no row
  changed is the error \<^verbatim>\<open>picture not found\<close>.
\<close>

definition IncrementLikes :: "fault \<Rightarrow> string \<Rightarrow> database \<Rightarrow> go_error option \<times> database" where
  "IncrementLikes f i db =
     (case f of
        Some e \<Rightarrow> (Some e, db)
      | None \<Rightarrow>
          let rowsAffected = length (filter (\<lambda>r. row_id r = i) (pictures db));
              db' = db\<lparr>pictures :=
                      map (\<lambda>r. if row_id r = i
                               then r\<lparr>row_likes := sqlite_add_one (row_likes r)\<rparr> else r)
                        (pictures db)\<rparr>
          in if rowsAffected = 0 then (Some ''picture not found'', db') else (None, db'))"

text \<open>
  \<^verbatim>\<open>UPDATE pictures SET id = ?, url = ? WHERE id = ?\<close>. The statement fails, and changes
  nothing, when it would give the new id to a row while another row already has it.
\<close>

definition UpdatePictureFile ::
  "fault \<Rightarrow> string \<Rightarrow> string \<Rightarrow> string \<Rightarrow> database \<Rightarrow> go_error option \<times> database" where
  "UpdatePictureFile f oldID newID newURL db =
     (case f of
        Some e \<Rightarrow> (Some e, db)
      | None \<Rightarrow>
          if oldID \<noteq> newID \<and> oldID \<in> set (map row_id (pictures db))
             \<and> newID \<in> set (map row_id (pictures db))
          then (Some ''UNIQUE constraint failed: pictures.id'', db)
          else (None, db\<lparr>pictures :=
                  map (\<lambda>r. if row_id r = oldID then r\<lparr>row_id := newID, row_url := newURL\<rparr> else r)
                    (pictures db)\<rparr>))"

subsection \<open>The task queue\<close>

text \<open>
  \<^verbatim>\<open>id INTEGER PRIMARY KEY AUTOINCREMENT\<close>: the next id is one more than the largest id
  ever used (\<^verbatim>\<open>sqlite_sequence\<close>, here \<open>task_seq\<close>) and than every id in the table.
\<close>

definition next_task_id :: "database \<Rightarrow> int" where
  "next_task_id db = fold max (map task_ID (conversion_tasks db)) (task_seq db) + 1"

text \<open>
  \<^verbatim>\<open>INSERT OR IGNORE INTO conversion_tasks (original_path, original_name, picture_id)
  VALUES (?, ?, NULLIF(?, ''))\<close>. The column \<^verbatim>\<open>original_path\<close> is UNIQUE: with \<^verbatim>\<open>OR IGNORE\<close> a
  row that would break the constraint is not inserted and the statement succeeds. SQLite
  has by then drawn the id for the row, so \<^verbatim>\<open>sqlite_sequence\<close> advances all the same and the
  id is never used. The other columns take their defaults; \<open>now\<close> is the clock reading of
  \<^verbatim>\<open>CURRENT_TIMESTAMP\<close>.
\<close>

definition CreateConversionTask ::
  "fault \<Rightarrow> nat \<Rightarrow> string \<Rightarrow> string \<Rightarrow> string \<Rightarrow> database \<Rightarrow> go_error option \<times> database" where
  "CreateConversionTask f now path name pictureID db =
     (case f of
        Some e \<Rightarrow> (Some e, db)
      | None \<Rightarrow>
          if path \<in> set (map OriginalPath (conversion_tasks db))
          then (None, db\<lparr>task_seq := next_task_id db\<rparr>)
          else (None, db\<lparr>conversion_tasks := conversion_tasks db @
                  [\<lparr>task_ID = next_task_id db, OriginalPath = path, OriginalName = name,
                    PictureID = (if pictureID = [] then None else Some pictureID),
                    Status = Pending, Error = None, CreatedAt = now, UpdatedAt = now\<rparr>],
                  task_seq := next_task_id db\<rparr>))"

text \<open>
  The two statements of \<^verbatim>\<open>ClaimNextTask\<close>. The first is
  \<^verbatim>\<open>SELECT ... WHERE status = 'pending' ORDER BY created_at LIMIT 1\<close>; the second is
  \<^verbatim>\<open>UPDATE conversion_tasks SET status = 'processing', updated_at = CURRENT_TIMESTAMP
  WHERE id = ? AND status = 'pending'\<close>, which returns the number of rows it changed.
\<close>

definition claim_select :: "database \<Rightarrow> ConversionTask option" where
  "claim_select db =
     (case sort_key CreatedAt (filter (\<lambda>t. Status t = Pending) (conversion_tasks db)) of
        [] \<Rightarrow> None
      | t # _ \<Rightarrow> Some t)"

definition claim_update :: "nat \<Rightarrow> int \<Rightarrow> database \<Rightarrow> nat \<times> database" where
  "claim_update now i db =
     (length (filter (\<lambda>t. task_ID t = i \<and> Status t = Pending) (conversion_tasks db)),
      db\<lparr>conversion_tasks :=
           map (\<lambda>t. if task_ID t = i \<and> Status t = Pending
                    then t\<lparr>Status := Processing, UpdatedAt := now\<rparr> else t)
             (conversion_tasks db)\<rparr>)"

text \<open>
  The calls of \<^verbatim>\<open>ClaimNextTask\<close> that can fail in the backend, in the order of the source:
  \<^verbatim>\<open>db.Begin\<close>, \<^verbatim>\<open>row.Scan\<close> (other than \<^verbatim>\<open>sql.ErrNoRows\<close>), \<^verbatim>\<open>tx.Exec\<close>,
  \<^verbatim>\<open>res.RowsAffected\<close>, \<^verbatim>\<open>tx.Commit\<close>.
\<close>

record claim_faults =
  Begin_fault :: fault
  Scan_fault :: fault
  Exec_fault :: fault
  RowsAffected_fault :: fault
  Commit_fault :: fault

definition no_claim_faults :: claim_faults where
  "no_claim_faults = \<lparr>Begin_fault = None, Scan_fault = None, Exec_fault = None,
     RowsAffected_fault = None, Commit_fault = None\<rparr>"

text \<open>
  \<^verbatim>\<open>ClaimNextTask\<close>, in the two halves that the SELECT separates: \<open>claim_begin\<close> opens
  the transaction and reads the oldest pending row (\<^verbatim>\<open>sql.ErrNoRows\<close> is the result
  \<open>Inr None\<close>), \<open>claim_finish\<close> runs the conditional UPDATE for the row that was read and
  commits. Every early return rolls the transaction back, so the tables are the ones before
  the call; the returned struct is the row as the SELECT read it.
\<close>

definition claim_begin :: "claim_faults \<Rightarrow> database \<Rightarrow> go_error + ConversionTask option" where
  "claim_begin cf db =
     (case Begin_fault cf of
        Some e \<Rightarrow> Inl e
      | None \<Rightarrow>
          (case Scan_fault cf of
             Some e \<Rightarrow> Inl e
           | None \<Rightarrow> Inr (claim_select db)))"

definition claim_finish ::
  "claim_faults \<Rightarrow> nat \<Rightarrow> ConversionTask \<Rightarrow> database
     \<Rightarrow> (go_error + ConversionTask option) \<times> database" where
  "claim_finish cf now task db =
     (case Exec_fault cf of
        Some e \<Rightarrow> (Inl e, db)
      | None \<Rightarrow>
          (case RowsAffected_fault cf of
             Some e \<Rightarrow> (Inl e, db)
           | None \<Rightarrow>
               if fst (claim_update now (task_ID task) db) = 0 then (Inr None, db)
               else
                 (case Commit_fault cf of
                    Some e \<Rightarrow> (Inl e, db)
                  | None \<Rightarrow> (Inr (Some task), snd (claim_update now (task_ID task) db)))))"

definition ClaimNextTask ::
  "claim_faults \<Rightarrow> nat \<Rightarrow> database \<Rightarrow> (go_error + ConversionTask option) \<times> database" where
  "ClaimNextTask cf now db =
     (case claim_begin cf db of
        Inl e \<Rightarrow> (Inl e, db)
      | Inr None \<Rightarrow> (Inr None, db)
      | Inr (Some task) \<Rightarrow> claim_finish cf now task db)"

text \<open>
  \<^verbatim>\<open>UPDATE conversion_tasks SET status = 'completed', error = NULL,
  updated_at = CURRENT_TIMESTAMP WHERE id = ?\<close> and its sibling for \<^verbatim>\<open>'failed'\<close>.
\<close>

definition MarkTaskCompleted :: "fault \<Rightarrow> nat \<Rightarrow> int \<Rightarrow> database \<Rightarrow> go_error option \<times> database" where
  "MarkTaskCompleted f now i db =
     (case f of
        Some e \<Rightarrow> (Some e, db)
      | None \<Rightarrow>
          (None, db\<lparr>conversion_tasks :=
             map (\<lambda>t. if task_ID t = i
                      then t\<lparr>Status := Completed, Error := None, UpdatedAt := now\<rparr> else t)
               (conversion_tasks db)\<rparr>))"

definition MarkTaskFailed ::
  "fault \<Rightarrow> nat \<Rightarrow> int \<Rightarrow> string \<Rightarrow> database \<Rightarrow> go_error option \<times> database" where
  "MarkTaskFailed f now i msg db =
     (case f of
        Some e \<Rightarrow> (Some e, db)
      | None \<Rightarrow>
          (None, db\<lparr>conversion_tasks :=
             map (\<lambda>t. if task_ID t = i
                      then t\<lparr>Status := Failed, Error := Some msg, UpdatedAt := now\<rparr> else t)
               (conversion_tasks db)\<rparr>))"

subsection \<open>Observations used in the statements\<close>

text \<open>The like count of the picture with a given id (of the first such row).\<close>

definition likeCount :: "database \<Rightarrow> string \<Rightarrow> int option" where
  "likeCount db i =
     (case filter (\<lambda>r. row_id r = i) (pictures db) of [] \<Rightarrow> None | r # _ \<Rightarrow> Some (row_likes r))"

text \<open>\<open>n\<close> like requests for the same id, one after the other, with the result of each.\<close>

fun IncrementLikes_n :: "nat \<Rightarrow> string \<Rightarrow> database \<Rightarrow> go_error option list \<times> database" where
  "IncrementLikes_n 0 i db = ([], db)"
| "IncrementLikes_n (Suc n) i db =
     (case IncrementLikes None i db of
        (r, db') \<Rightarrow> (case IncrementLikes_n n i db' of (rs, db'') \<Rightarrow> (r # rs, db'')))"

text \<open>A store with two pictures, for the concrete instances.\<close>

definition two_pictures :: database where
  "two_pictures = \<lparr>pictures =
      [\<lparr>row_id = ''a.webp'', row_filename = ''a.png'', row_url = ''/uploads/a.webp'',
        row_likes = 4, row_uploaded_at = ''2024-05-01T10:00:00Z''\<rparr>,
       \<lparr>row_id = ''b.webp'', row_filename = ''b.png'', row_url = ''/uploads/b.webp'',
        row_likes = 0, row_uploaded_at = ''2024-05-02T10:00:00Z''\<rparr>],
     conversion_tasks = [], task_seq = 0\<rparr>"

subsection \<open>Callers of the queue\<close>

text \<open>
  The queue is used by several callers at once. A caller of \<^verbatim>\<open>ClaimNextTask\<close> holds the row
  it read in a local variable between its SELECT and its UPDATE, and the statements of
  other callers may run in between. A state of the queue is the database together with the
  local variable of every caller; an event is one statement-level step of one caller. The
  third component of a step's result is the task that the step hands to its caller, if any.
\<close>

datatype queue_event =
    Ev_Create fault nat string string string
  | Ev_ClaimBegin nat claim_faults
  | Ev_ClaimFinish nat claim_faults nat
  | Ev_MarkCompleted fault nat int
  | Ev_MarkFailed fault nat int string

type_synonym queue_state = "database \<times> (nat \<Rightarrow> ConversionTask option)"

fun queue_step :: "queue_event \<Rightarrow> queue_state \<Rightarrow> queue_state \<times> ConversionTask option" where
  "queue_step (Ev_Create f now path name pictureID) (db, loc) =
     ((snd (CreateConversionTask f now path name pictureID db), loc), None)"
| "queue_step (Ev_ClaimBegin c cf) (db, loc) =
     (case claim_begin cf db of
        Inl e \<Rightarrow> ((db, loc(c := None)), None)
      | Inr r \<Rightarrow> ((db, loc(c := r)), None))"
| "queue_step (Ev_ClaimFinish c cf now) (db, loc) =
     (case loc c of
        None \<Rightarrow> ((db, loc), None)
      | Some task \<Rightarrow>
          (case claim_finish cf now task db of
             (Inl e, db') \<Rightarrow> ((db', loc(c := None)), None)
           | (Inr r, db') \<Rightarrow> ((db', loc(c := None)), r)))"
| "queue_step (Ev_MarkCompleted f now i) (db, loc) =
     ((snd (MarkTaskCompleted f now i db), loc), None)"
| "queue_step (Ev_MarkFailed f now i msg) (db, loc) =
     ((snd (MarkTaskFailed f now i msg db), loc), None)"

text \<open>A run of events: the final state and the tasks handed out, in order.\<close>

fun queue_run :: "queue_event list \<Rightarrow> queue_state \<Rightarrow> queue_state \<times> ConversionTask list" where
  "queue_run [] s = (s, [])"
| "queue_run (e # es) s =
     (case queue_step e s of
        (s', r) \<Rightarrow>
          (case queue_run es s' of
             (s'', rs) \<Rightarrow> (s'', (case r of None \<Rightarrow> rs | Some t \<Rightarrow> t # rs))))"

text \<open>
  What SQLite does to the caller that lost a race. \<^verbatim>\<open>db.Begin\<close> opens a deferred
  transaction, so the SELECT of \<^verbatim>\<open>ClaimNextTask\<close> takes a read snapshot and the UPDATE has
  to turn it into a write. When another caller has written to the database since the
  SELECT, SQLite refuses that: \<^verbatim>\<open>tx.Exec\<close> returns the error \<^verbatim>\<open>database is locked\<close> and the
  conditional UPDATE is never evaluated. (In WAL mode the other caller has committed; with
  a rollback journal it holds the write lock and commits once the refused caller has rolled
  back. In both the refused caller changes nothing.) A write is recognised by the store
  being another one than the SELECT read; \<open>snapshot\<close> is the store as the SELECT read it.
\<close>

definition sqlite_busy :: "database \<Rightarrow> database \<Rightarrow> fault" where
  "sqlite_busy snapshot db = (if db = snapshot then None else Some ''database is locked'')"

definition claim_faults_after :: "database \<Rightarrow> database \<Rightarrow> claim_faults" where
  "claim_faults_after snapshot db = no_claim_faults\<lparr>Exec_fault := sqlite_busy snapshot db\<rparr>"

text \<open>The position of a status in the life of a task.\<close>

fun status_rank :: "task_status \<Rightarrow> nat" where
  "status_rank Pending = 0"
| "status_rank Processing = 1"
| "status_rank Completed = 2"
| "status_rank Failed = 2"

text \<open>
  \<open>tasks_advance ts ts'\<close>: the table \<open>ts'\<close> has the rows of \<open>ts\<close> at the same positions,
  each with the same id and a status that is not earlier in the life of a task, and
  possibly new rows after them.
\<close>

definition tasks_advance :: "ConversionTask list \<Rightarrow> ConversionTask list \<Rightarrow> bool" where
  "tasks_advance ts ts' \<longleftrightarrow>
     length ts \<le> length ts'
     \<and> list_all2 (\<lambda>t t'. task_ID t' = task_ID t \<and> OriginalPath t' = OriginalPath t
                         \<and> status_rank (Status t) \<le> status_rank (Status t'))
         ts (take (length ts) ts')"

text \<open>A queue with three pending tasks and one completed, for the concrete instances.\<close>

definition mk_task :: "int \<Rightarrow> string \<Rightarrow> task_status \<Rightarrow> nat \<Rightarrow> ConversionTask" where
  "mk_task i path st created =
     \<lparr>task_ID = i, OriginalPath = path, OriginalName = ''photo.jpg'', PictureID = None,
      Status = st, Error = None, CreatedAt = created, UpdatedAt = created\<rparr>"

definition four_tasks :: database where
  "four_tasks = \<lparr>pictures = [],
     conversion_tasks =
       [mk_task 1 ''uploads/original/1.jpg'' Completed 100,
        mk_task 2 ''uploads/original/2.jpg'' Pending 230,
        mk_task 3 ''uploads/original/3.jpg'' Pending 210,
        mk_task 4 ''uploads/original/4.jpg'' Pending 220],
     task_seq = 4\<rparr>"

definition no_pending_tasks :: database where
  "no_pending_tasks = \<lparr>pictures = [],
     conversion_tasks =
       [mk_task 1 ''uploads/original/1.jpg'' Completed 100,
        mk_task 2 ''uploads/original/2.jpg'' Failed 230],
     task_seq = 2\<rparr>"

text \<open>
  Two callers race for the oldest pending task of \<open>four_tasks\<close>; later steps mark, claim
  again and try to create a task for a path that already has one.
\<close>

definition race_events :: "queue_event list" where
  "race_events =
     [Ev_ClaimBegin 1 no_claim_faults, Ev_ClaimBegin 2 no_claim_faults,
      Ev_ClaimFinish 1 no_claim_faults 500, Ev_ClaimFinish 2 no_claim_faults 501,
      Ev_MarkCompleted None 510 3,
      Ev_ClaimBegin 2 no_claim_faults, Ev_ClaimFinish 2 no_claim_faults 520,
      Ev_MarkFailed None 530 4 ''read original: gone'',
      Ev_Create None 540 ''uploads/original/1.jpg'' ''again.jpg'' [],
      Ev_MarkCompleted None 550 2]"

section \<open>The broadcast hub (Hub.run)\<close>

text \<open>
  A connection (\<^verbatim>\<open>*websocket.Conn\<close>) is modelled by its identity. The hub's
  \<^verbatim>\<open>map[*websocket.Conn]bool\<close> only ever stores \<^verbatim>\<open>true\<close>, so it is modelled by the list of
  its keys; the order of the list stands for the order in which \<^verbatim>\<open>range\<close> visits them, which
  Go leaves open. Besides the map the model records what the hub did to the connections:
  every call of \<^verbatim>\<open>WriteMessage\<close> with its outcome, and every call of \<^verbatim>\<open>Close\<close>.
\<close>

type_synonym conn = nat

record Hub =
  clients :: "conn list"
  wire :: "(conn \<times> bytes \<times> bool) list"
  closed :: "conn list"

datatype hub_message = Register conn | Unregister conn | Broadcast bytes

text \<open>
  Whether a write succeeds is decided by the peer and the network: \<open>write conn message\<close>
  is the error that \<^verbatim>\<open>conn.WriteMessage(websocket.TextMessage, message)\<close> returns, an input
  of the model.

  The loop \<^verbatim>\<open>for conn := range h.clients\<close> of the broadcast case. Deleting the current key
  while ranging over a map is allowed in Go, and the loop still visits every other key.
\<close>

fun broadcast_loop :: "(conn \<Rightarrow> bytes \<Rightarrow> go_error option) \<Rightarrow> bytes \<Rightarrow> conn list \<Rightarrow> Hub \<Rightarrow> Hub" where
  "broadcast_loop write message [] h = h"
| "broadcast_loop write message (conn # rest) h =
     (case write conn message of
        Some err \<Rightarrow>
          broadcast_loop write message rest
            (h\<lparr>clients := removeAll conn (clients h),
               wire := wire h @ [(conn, message, False)],
               closed := closed h @ [conn]\<rparr>)
      | None \<Rightarrow>
          broadcast_loop write message rest
            (h\<lparr>wire := wire h @ [(conn, message, True)]\<rparr>))"

text \<open>One iteration of the \<^verbatim>\<open>select\<close> loop of \<^verbatim>\<open>Hub.run\<close>, for the message received.\<close>

fun hub_step :: "(conn \<Rightarrow> bytes \<Rightarrow> go_error option) \<Rightarrow> hub_message \<Rightarrow> Hub \<Rightarrow> Hub" where
  "hub_step write (Register conn) h =
     (if conn \<in> set (clients h) then h else h\<lparr>clients := clients h @ [conn]\<rparr>)"
| "hub_step write (Unregister conn) h =
     (if conn \<in> set (clients h)
      then h\<lparr>clients := removeAll conn (clients h), closed := closed h @ [conn]\<rparr>
      else h)"
| "hub_step write (Broadcast message) h = broadcast_loop write message (clients h) h"

text \<open>
  \<^verbatim>\<open>Hub.run\<close> never returns; the model runs it on the messages that arrive, each paired with
  the behaviour of the network at that moment.
\<close>

fun hub_run :: "((conn \<Rightarrow> bytes \<Rightarrow> go_error option) \<times> hub_message) list \<Rightarrow> Hub \<Rightarrow> Hub" where
  "hub_run [] h = h"
| "hub_run ((write, m) # ms) h = hub_run ms (hub_step write m h)"

text \<open>The messages that the hub tried to write to a connection, in order.\<close>

definition written_to :: "conn \<Rightarrow> Hub \<Rightarrow> (bytes \<times> bool) list" where
  "written_to c h = map snd (filter (\<lambda>w. fst w = c) (wire h))"

text \<open>Three viewers, for the concrete instances; the second one has gone away.\<close>

definition three_clients :: Hub where
  "three_clients = \<lparr>clients = [7, 8, 9], wire = [], closed = []\<rparr>"

definition peer_8_gone :: "conn \<Rightarrow> bytes \<Rightarrow> go_error option" where
  "peer_8_gone c message = (if c = 8 then Some ''write: broken pipe'' else None)"

definition all_peers_up :: "conn \<Rightarrow> bytes \<Rightarrow> go_error option" where
  "all_peers_up c message = None"

section \<open>Numbers as text\<close>

text \<open>\<^verbatim>\<open>strconv.FormatInt(n, 10)\<close>: the decimal digits of an integer, with a sign if negative.\<close>

definition digit :: "int \<Rightarrow> char" where
  "digit d = ''0123456789'' ! nat d"

function decimal :: "int \<Rightarrow> string" where
  "decimal n = (if n < 10 then [digit n] else decimal (n div 10) @ [digit (n mod 10)])"
  by pat_completeness auto
termination
  by (relation "measure nat") auto

definition FormatInt :: "int \<Rightarrow> string" where
  "FormatInt i = (if i < 0 then CHR ''-'' # decimal (- i) else decimal i)"

text \<open>\<^verbatim>\<open>strings.TrimSuffix\<close>.\<close>

definition TrimSuffix :: "string \<Rightarrow> string \<Rightarrow> string" where
  "TrimSuffix s suffix =
     (if length suffix \<le> length s \<and> drop (length s - length suffix) s = suffix
      then take (length s - length suffix) s else s)"

section \<open>The time library\<close>

text \<open>
  The store keeps \<^verbatim>\<open>uploaded_at\<close> as the text \<^verbatim>\<open>UploadedAt.Format(time.RFC3339)\<close>; on the way
  back the driver decodes the text, \<^verbatim>\<open>rows.Scan\<close> renders the decoded time and the readers
  parse the rendering with \<^verbatim>\<open>time.Parse(time.RFC3339, _)\<close>. The operations of the store
  take these functions as parameters. This section gives the instance for Go's
  \<^verbatim>\<open>time.Time\<close>: an instant (seconds and nanoseconds since the Unix epoch) together with
  the offset of its location from UTC at that instant, in seconds east.
\<close>

record go_time =
  unix_sec :: int
  nsec :: int
  zone_offset :: int

text \<open>\<^verbatim>\<open>t.Before(u)\<close>: the order of the instants; the location plays no part.\<close>

definition time_Before :: "go_time \<Rightarrow> go_time \<Rightarrow> bool" where
  "time_Before t u \<longleftrightarrow> unix_sec t < unix_sec u \<or> (unix_sec t = unix_sec u \<and> nsec t < nsec u)"

text \<open>
  The proleptic Gregorian calendar: the day number (days since 1970-01-01) of a civil date
  and back.
\<close>

definition days_from_civil :: "int \<Rightarrow> int \<Rightarrow> int \<Rightarrow> int" where
  "days_from_civil y m d =
     (let y' = (if m \<le> 2 then y - 1 else y);
          era = y' div 400;
          yoe = y' - era * 400;
          doy = (153 * (if m > 2 then m - 3 else m + 9) + 2) div 5 + d - 1;
          doe = yoe * 365 + yoe div 4 - yoe div 100 + doy
      in era * 146097 + doe - 719468)"

definition civil_from_days :: "int \<Rightarrow> int \<times> int \<times> int" where
  "civil_from_days z =
     (let z' = z + 719468;
          era = z' div 146097;
          doe = z' - era * 146097;
          yoe = (doe - doe div 1460 + doe div 36524 - doe div 146096) div 365;
          doy = doe - (365 * yoe + yoe div 4 - yoe div 100);
          mp = (5 * doy + 2) div 153;
          d = doy - (153 * mp + 2) div 5 + 1;
          m = (if mp < 10 then mp + 3 else mp - 9)
      in (if m \<le> 2 then yoe + era * 400 + 1 else yoe + era * 400, m, d))"

definition isLeap :: "int \<Rightarrow> bool" where
  "isLeap y \<longleftrightarrow> y mod 4 = 0 \<and> (y mod 100 \<noteq> 0 \<or> y mod 400 = 0)"

definition daysIn :: "int \<Rightarrow> int \<Rightarrow> int" where
  "daysIn m y =
     (if m = 2 then (if isLeap y then 29 else 28)
      else if m = 4 \<or> m = 6 \<or> m = 9 \<or> m = 11 then 30 else 31)"

text \<open>\<^verbatim>\<open>appendInt(b, x, width)\<close>: decimal digits, zero-padded to the width, sign first.\<close>

definition appendInt :: "int \<Rightarrow> nat \<Rightarrow> string" where
  "appendInt x width =
     (let ds = decimal \<bar>x\<bar>
      in (if x < 0 then ''-'' else []) @ replicate (width - length ds) (CHR ''0'') @ ds)"

text \<open>
  \<^verbatim>\<open>t.Format(time.RFC3339)\<close>, layout \<^verbatim>\<open>2006-01-02T15:04:05Z07:00\<close>: the civil date and time
  of the instant in the time's own location, then \<^verbatim>\<open>Z\<close> for offset 0 and the signed offset
  in hours and minutes otherwise. Nanoseconds are not printed.
\<close>

definition time_Format_RFC3339 :: "go_time \<Rightarrow> string" where
  "time_Format_RFC3339 t =
     (let abs_sec = unix_sec t + zone_offset t;
          date = civil_from_days (abs_sec div 86400);
          secs = abs_sec mod 86400;
          zone = (if zone_offset t < 0 then - ((- zone_offset t) div 60) else zone_offset t div 60)
      in appendInt (fst date) 4 @ ''-'' @ appendInt (fst (snd date)) 2 @ ''-''
         @ appendInt (snd (snd date)) 2 @ ''T''
         @ appendInt (secs div 3600) 2 @ '':'' @ appendInt (secs mod 3600 div 60) 2 @ '':''
         @ appendInt (secs mod 60) 2
         @ (if zone_offset t = 0 then ''Z''
            else (if zone < 0 then ''-'' else ''+'')
                 @ appendInt (\<bar>zone\<bar> div 60) 2 @ '':'' @ appendInt (\<bar>zone\<bar> mod 60) 2))"

text \<open>
  \<^verbatim>\<open>time.Parse(time.RFC3339, s)\<close>, for the spelling that RFC 3339 prescribes: a four-digit
  year, two-digit fields in range, an optional fraction of a second after a dot, and \<^verbatim>\<open>Z\<close>
  or a signed offset of at most 23:59. The library reads a few looser spellings as well,
  which the model rejects: a comma before the fraction, an hour of one digit, and the
  offsets 24:00 and hh:60. No statement below evaluates the parser at such a text, and
  what \<^verbatim>\<open>Format\<close> writes has none of these spellings.
\<close>

definition isDigit :: "char \<Rightarrow> bool" where
  "isDigit c \<longleftrightarrow> 48 \<le> (of_char c :: nat) \<and> (of_char c :: nat) \<le> 57"

fun atoi :: "string \<Rightarrow> int \<Rightarrow> int" where
  "atoi [] acc = acc"
| "atoi (c # cs) acc = atoi cs (10 * acc + (int (of_char c) - 48))"

definition parseUint :: "string \<Rightarrow> int \<Rightarrow> int \<Rightarrow> int option" where
  "parseUint s lo hi =
     (if list_all isDigit s \<and> lo \<le> atoi s 0 \<and> atoi s 0 \<le> hi then Some (atoi s 0) else None)"

definition parseNanoseconds :: "string \<Rightarrow> int" where
  "parseNanoseconds ds = atoi (take 9 (ds @ ''000000000'')) 0"

definition parse_zone :: "string \<Rightarrow> int option" where
  "parse_zone s =
     (if s = ''Z'' then Some 0
      else if length s \<noteq> 6 then None
      else
        (case (parseUint (take 2 (drop 1 s)) 0 23, parseUint (take 2 (drop 4 s)) 0 59) of
           (Some hr, Some mm) \<Rightarrow>
             if (s ! 0 = CHR ''-'' \<or> s ! 0 = CHR ''+'') \<and> s ! 3 = CHR '':''
             then Some ((if s ! 0 = CHR ''-'' then - 1 else 1) * ((hr * 60 + mm) * 60))
             else None
         | _ \<Rightarrow> None))"

definition time_Parse_RFC3339 :: "string \<Rightarrow> go_time option" where
  "time_Parse_RFC3339 s =
     (if length s < 19 then None
      else
        (case parseUint (take 4 s) 0 9999 of
           None \<Rightarrow> None
         | Some year \<Rightarrow>
        (case parseUint (take 2 (drop 5 s)) 1 12 of
           None \<Rightarrow> None
         | Some month \<Rightarrow>
        (case (parseUint (take 2 (drop 8 s)) 1 (daysIn month year),
               parseUint (take 2 (drop 11 s)) 0 23,
               parseUint (take 2 (drop 14 s)) 0 59,
               parseUint (take 2 (drop 17 s)) 0 59) of
           (Some day, Some hour, Some minute, Some sec) \<Rightarrow>
             if \<not> (s ! 4 = CHR ''-'' \<and> s ! 7 = CHR ''-'' \<and> s ! 10 = CHR ''T''
                   \<and> s ! 13 = CHR '':'' \<and> s ! 16 = CHR '':'')
             then None
             else
               (let rest = drop 19 s;
                    frac = (if length rest \<ge> 2 \<and> rest ! 0 = CHR ''.'' \<and> isDigit (rest ! 1)
                            then takeWhile isDigit (drop 1 rest) else []);
                    rest' = (if frac = [] then rest else drop (1 + length frac) rest)
                in (case parse_zone rest' of
                      None \<Rightarrow> None
                    | Some off \<Rightarrow>
                        Some \<lparr>unix_sec = days_from_civil year month day * 86400
                                 + hour * 3600 + minute * 60 + sec - off,
                              nsec = (if frac = [] then 0 else parseNanoseconds frac),
                              zone_offset = off\<rparr>))
         | _ \<Rightarrow> None))))"

text \<open>
  \<^verbatim>\<open>t.Format(time.RFC3339Nano)\<close>, layout \<^verbatim>\<open>2006-01-02T15:04:05.999999999Z07:00\<close>: as
  \<^verbatim>\<open>time.RFC3339\<close>, with the nanoseconds after the seconds, trailing zeros removed, and
  nothing at all when they are zero.
\<close>

definition format_fraction :: "int \<Rightarrow> string" where
  "format_fraction n =
     (if n = 0 then []
      else ''.'' @ rev (dropWhile (\<lambda>c. c = CHR ''0'') (rev (appendInt n 9))))"

definition time_Format_RFC3339Nano :: "go_time \<Rightarrow> string" where
  "time_Format_RFC3339Nano t =
     (let abs_sec = unix_sec t + zone_offset t;
          date = civil_from_days (abs_sec div 86400);
          secs = abs_sec mod 86400;
          zone = (if zone_offset t < 0 then - ((- zone_offset t) div 60) else zone_offset t div 60)
      in appendInt (fst date) 4 @ ''-'' @ appendInt (fst (snd date)) 2 @ ''-''
         @ appendInt (snd (snd date)) 2 @ ''T''
         @ appendInt (secs div 3600) 2 @ '':'' @ appendInt (secs mod 3600 div 60) 2 @ '':''
         @ appendInt (secs mod 60) 2 @ format_fraction (nsec t)
         @ (if zone_offset t = 0 then ''Z''
            else (if zone < 0 then ''-'' else ''+'')
                 @ appendInt (\<bar>zone\<bar> div 60) 2 @ '':'' @ appendInt (\<bar>zone\<bar> mod 60) 2))"

text \<open>
  What the SQLite driver (\<^verbatim>\<open>github.com/mattn/go-sqlite3\<close>) hands to \<^verbatim>\<open>database/sql\<close> for a
  text in a column declared \<^verbatim>\<open>DATETIME\<close>: it removes one trailing \<^verbatim>\<open>Z\<close>, tries the layouts of
  \<^verbatim>\<open>SQLiteTimestampFormats\<close> in order with \<^verbatim>\<open>time.ParseInLocation(_, _, time.UTC)\<close> and takes
  the first that parses; if none does, the value is the zero time \<^verbatim>\<open>time.Time{}\<close>, the
  first instant of the year 1 in UTC. The connection string of the source sets no
  \<^verbatim>\<open>_loc\<close>, so the time is not moved to another location.

  The layouts are a date, then a blank or a \<^verbatim>\<open>T\<close>, then a time with seconds and an offset,
  or with seconds, or with minutes only; the last layout is a date alone. A layout is
  given by its separator and its tail. Each is read in the spelling with two-digit fields,
  as the parser above.
\<close>

definition zero_time :: go_time where
  "zero_time = \<lparr>unix_sec = - 62135596800, nsec = 0, zone_offset = 0\<rparr>"

datatype layout_tail = With_offset | With_seconds | With_minutes | Date_only

definition SQLiteTimestampFormats :: "(char \<times> layout_tail) list" where
  "SQLiteTimestampFormats =
     [(CHR '' '', With_offset), (CHR ''T'', With_offset),
      (CHR '' '', With_seconds), (CHR ''T'', With_seconds),
      (CHR '' '', With_seconds), (CHR ''T'', With_seconds),
      (CHR '' '', With_minutes), (CHR ''T'', With_minutes),
      (CHR '' '', Date_only)]"

definition ParseInLocation_UTC :: "char \<times> layout_tail \<Rightarrow> string \<Rightarrow> go_time option" where
  "ParseInLocation_UTC layout s =
     (case snd layout of
        Date_only \<Rightarrow>
          if length s = 10 then time_Parse_RFC3339 (s @ ''T00:00:00Z'') else None
      | With_minutes \<Rightarrow>
          if length s = 16 \<and> s ! 10 = fst layout
          then time_Parse_RFC3339 (take 10 s @ ''T'' @ drop 11 s @ '':00Z'') else None
      | With_seconds \<Rightarrow>
          if 19 \<le> length s \<and> s ! 10 = fst layout
          then time_Parse_RFC3339 (take 10 s @ ''T'' @ drop 11 s @ ''Z'') else None
      | With_offset \<Rightarrow>
          if 25 \<le> length s \<and> s ! 10 = fst layout \<and> last s \<noteq> CHR ''Z''
          then time_Parse_RFC3339 (take 10 s @ ''T'' @ drop 11 s) else None)"

fun first_layout :: "(char \<times> layout_tail) list \<Rightarrow> string \<Rightarrow> go_time option" where
  "first_layout [] s = None"
| "first_layout (layout # layouts) s =
     (case ParseInLocation_UTC layout s of
        Some t \<Rightarrow> Some t
      | None \<Rightarrow> first_layout layouts s)"

definition sqlite3_decode_time :: "string \<Rightarrow> go_time" where
  "sqlite3_decode_time s =
     (case first_layout SQLiteTimestampFormats (TrimSuffix s ''Z'') of
        Some t \<Rightarrow> t
      | None \<Rightarrow> zero_time)"

text \<open>The library as the readers of the store use it.\<close>

definition go_scan_lib :: "go_time scan_lib" where
  "go_scan_lib = \<lparr>Driver_decode = sqlite3_decode_time,
                  Format_RFC3339Nano = time_Format_RFC3339Nano,
                  Parse_RFC3339 = time_Parse_RFC3339\<rparr>"

subsection \<open>Observations on the listings\<close>

text \<open>
  \<open>ranked_before before p q\<close>: in a list sorted by likes descending and then by time of
  upload descending, \<open>p\<close> may stand before \<open>q\<close>. The parameter \<open>before\<close> is the order of
  the times (\<^verbatim>\<open>t.Before(u)\<close>).
\<close>

definition ranked_before :: "('t \<Rightarrow> 't \<Rightarrow> bool) \<Rightarrow> 't Picture \<Rightarrow> 't Picture \<Rightarrow> bool" where
  "ranked_before before p q \<longleftrightarrow>
     Likes q < Likes p \<or> (Likes p = Likes q \<and> \<not> before (UploadedAt p) (UploadedAt q))"

text \<open>The rows that the readers keep, and the struct they build from such a row.\<close>

definition parses :: "'t scan_lib \<Rightarrow> picture_row \<Rightarrow> bool" where
  "parses lib r \<longleftrightarrow> Parse_RFC3339 lib (uploadedAtStr lib r) \<noteq> None"

definition picture_of :: "'t scan_lib \<Rightarrow> picture_row \<Rightarrow> 't Picture" where
  "picture_of lib r =
     \<lparr>ID = row_id r, Filename = row_filename r, URL = row_url r, Likes = row_likes r,
      UploadedAt = the (Parse_RFC3339 lib (uploadedAtStr lib r))\<rparr>"


text \<open>
  Two uploads on the night when a server in New York leaves daylight saving time: the first
  at 01:30 local time (UTC-4), the second forty minutes later, at 01:10 local time (UTC-5).
\<close>

definition upload_0130_edt :: "go_time Picture" where
  "upload_0130_edt = \<lparr>ID = ''1730611800000000000.webp'', Filename = ''first.png'',
     URL = ''/uploads/1730611800000000000.webp'', Likes = 0,
     UploadedAt = \<lparr>unix_sec = 1730611800, nsec = 0, zone_offset = - 14400\<rparr>\<rparr>"

definition upload_0110_est :: "go_time Picture" where
  "upload_0110_est = \<lparr>ID = ''1730614200000000000.webp'', Filename = ''second.png'',
     URL = ''/uploads/1730614200000000000.webp'', Likes = 0,
     UploadedAt = \<lparr>unix_sec = 1730614200, nsec = 0, zone_offset = - 18000\<rparr>\<rparr>"

definition two_uploads :: database where
  "two_uploads =
     snd (AddPicture None time_Format_RFC3339 upload_0110_est
       (snd (AddPicture None time_Format_RFC3339 upload_0130_edt empty_database)))"

text \<open>
  A store in which the second row holds a time in SQLite's own spelling and the fourth row
  a text that is no time at all. Neither text is RFC 3339.
\<close>

definition foreign_row :: picture_row where
  "foreign_row = \<lparr>row_id = ''b.webp'', row_filename = ''b.png'', row_url = ''/uploads/b.webp'',
        row_likes = 9, row_uploaded_at = ''2024-05-02 10:00:00''\<rparr>"

definition timeless_row :: picture_row where
  "timeless_row = \<lparr>row_id = ''d.webp'', row_filename = ''d.png'', row_url = ''/uploads/d.webp'',
        row_likes = 0, row_uploaded_at = ''last week''\<rparr>"


section \<open>The conversion worker\<close>

subsection \<open>Library functions used by the worker\<close>

text \<open>
  \<^verbatim>\<open>filepath.Ext\<close>: the suffix that starts at the last dot of the last path element, or the
  empty string. The source scans from the end and stops at a separator; \<open>ext_scan\<close> is that
  scan over the reversed path, collecting the characters passed.
\<close>

fun ext_scan :: "string \<Rightarrow> string \<Rightarrow> string" where
  "ext_scan [] passed = []"
| "ext_scan (c # cs) passed =
     (if c = CHR ''/'' then []
      else if c = CHR ''.'' then c # passed
      else ext_scan cs (c # passed))"

definition filepath_Ext :: "string \<Rightarrow> string" where
  "filepath_Ext path = ext_scan (rev path) []"

text \<open>
  A decoded image: its bounds and its pixels. The pixels are never inspected by the worker,
  so their type is left open.
\<close>

record 'p image =
  Dx :: int
  Dy :: int
  Pix :: 'p

text \<open>
  \<^verbatim>\<open>imaging.Resize\<close> and \<^verbatim>\<open>imaging.Fit\<close> of the imaging library, following the library's
  code: \<open>Fit\<close> returns the image itself when it fits the box, and otherwise sets the side
  that is too long to the box and the other side in proportion, rounded down; \<open>Resize\<close>
  turns a side of 0 into the proportional length, at least one pixel. The library computes
  the proportions in \<^verbatim>\<open>float64\<close>; the model computes them exactly. The resampling filter
  (\<^verbatim>\<open>imaging.Lanczos\<close> in the worker) is the parameter \<open>resample\<close>: it gives the pixels of the
  image resampled to a given size.
\<close>

definition imaging_Resize ::
  "('p image \<Rightarrow> int \<Rightarrow> int \<Rightarrow> 'p) \<Rightarrow> 'p image \<Rightarrow> int \<Rightarrow> int \<Rightarrow> 'p image" where
  "imaging_Resize resample img width height =
     (if width < 0 \<or> height < 0 then \<lparr>Dx = 0, Dy = 0, Pix = resample img 0 0\<rparr>
      else if width = 0 \<and> height = 0 then \<lparr>Dx = 0, Dy = 0, Pix = resample img 0 0\<rparr>
      else if Dx img \<le> 0 \<or> Dy img \<le> 0 then \<lparr>Dx = 0, Dy = 0, Pix = resample img 0 0\<rparr>
      else
        let dstW = (if width = 0
                    then max 1 ((2 * (height * Dx img) + Dy img) div (2 * Dy img))
                    else width);
            dstH = (if height = 0
                    then max 1 ((2 * (dstW * Dy img) + Dx img) div (2 * Dx img))
                    else height)
        in if Dx img = dstW \<and> Dy img = dstH then img
           else \<lparr>Dx = dstW, Dy = dstH, Pix = resample img dstW dstH\<rparr>)"

definition imaging_Fit ::
  "('p image \<Rightarrow> int \<Rightarrow> int \<Rightarrow> 'p) \<Rightarrow> 'p image \<Rightarrow> int \<Rightarrow> int \<Rightarrow> 'p image" where
  "imaging_Fit resample img maxW maxH =
     (if maxW \<le> 0 \<or> maxH \<le> 0 then \<lparr>Dx = 0, Dy = 0, Pix = resample img 0 0\<rparr>
      else if Dx img \<le> 0 \<or> Dy img \<le> 0 then \<lparr>Dx = 0, Dy = 0, Pix = resample img 0 0\<rparr>
      else if Dx img \<le> maxW \<and> Dy img \<le> maxH then img
      else if Dx img * maxH > maxW * Dy img
        then imaging_Resize resample img maxW ((maxW * Dy img) div Dx img)
        else imaging_Resize resample img ((maxH * Dx img) div Dy img) maxH)"

text \<open>
  What one cycle of the worker reads from outside the store: the results of the calls to
  the operating system, the clock, the image codecs, the time library, what the driver and
  \<^verbatim>\<open>rows.Scan\<close> do to a stored time (\<open>Scan_lib\<close>) and the faults of the backend. \<open>Stat\<close>,
  \<open>MkdirAll\<close> and \<open>WriteFile\<close> give the error of the call, \<open>None\<close> for \<^verbatim>\<open>nil\<close>. \<open>Join\<close> is \<^verbatim>\<open>filepath.Join\<close>.
\<close>

record ('t, 'p) worker_env =
  ReadFile :: "string \<Rightarrow> go_error + bytes"
  MkdirAll :: "string \<Rightarrow> go_error option"
  Stat :: "string \<Rightarrow> go_error option"
  WriteFile :: "string \<Rightarrow> bytes \<Rightarrow> go_error option"
  Join :: "string \<Rightarrow> string \<Rightarrow> string"
  UnixNano_base :: int
  UnixNano_suffix :: int
  Now :: 't
  Format_RFC3339 :: "'t \<Rightarrow> string"
  Scan_lib :: "'t scan_lib"
  Decode :: "bytes \<Rightarrow> go_error + 'p image"
  Lanczos :: "'p image \<Rightarrow> int \<Rightarrow> int \<Rightarrow> 'p"
  Encode :: "'p image \<Rightarrow> nat \<Rightarrow> go_error + bytes"
  Claim_faults :: claim_faults
  Claim_now :: nat
  UpdatePictureFile_fault :: fault
  AddPicture_fault :: fault
  GetAll_fault :: fault
  Mark_fault :: fault
  Mark_now :: nat

text \<open>
  What one cycle does outside the store: the file it writes, the files it removes, and the
  snapshot it sends to the hub's broadcast channel.
\<close>

record 't worker_effects =
  written_file :: "(string \<times> bytes) option"
  removed_files :: "string list"
  broadcast :: "'t Picture list option"

definition no_effects :: "'t worker_effects" where
  "no_effects = \<lparr>written_file = None, removed_files = [], broadcast = None\<rparr>"

subsection \<open>convertToWebP\<close>

definition maxImageDimension :: int where
  "maxImageDimension = 1600"

text \<open>The \<^verbatim>\<open>if width > maxImageDimension || height > maxImageDimension\<close> statement.\<close>

definition fit_to_max :: "('p image \<Rightarrow> int \<Rightarrow> int \<Rightarrow> 'p) \<Rightarrow> 'p image \<Rightarrow> 'p image" where
  "fit_to_max lanczos img =
     (let width = Dx img; height = Dy img
      in if width > maxImageDimension \<or> height > maxImageDimension
         then imaging_Fit lanczos img maxImageDimension maxImageDimension
         else img)"

definition convertToWebP :: "('t, 'p) worker_env \<Rightarrow> bytes \<Rightarrow> go_error + bytes" where
  "convertToWebP env data =
     (case Decode env data of
        Inl err \<Rightarrow> Inl err
      | Inr img \<Rightarrow>
          (case Encode env (fit_to_max (Lanczos env) img) 82 of
             Inl err \<Rightarrow> Inl err
           | Inr buf \<Rightarrow> Inr buf))"

subsection \<open>processConversionTask\<close>

definition uploadDir :: string where
  "uploadDir = ''uploads''"

definition is_reconversion :: "ConversionTask \<Rightarrow> bool" where
  "is_reconversion task = (case PictureID task of None \<Rightarrow> False | Some p \<Rightarrow> p \<noteq> [])"

text \<open>
  The choice of the new id and path: the clock reading in nanoseconds, or for a
  re-conversion the old id without its extension; if a file of that name exists
  (\<^verbatim>\<open>os.Stat\<close> returns no error), a second clock reading is appended.
\<close>

definition new_name :: "('t, 'p) worker_env \<Rightarrow> ConversionTask \<Rightarrow> string \<times> string" where
  "new_name env task =
     (let base0 = FormatInt (UnixNano_base env);
          base = (case PictureID task of
                    None \<Rightarrow> base0
                  | Some p \<Rightarrow>
                      if p \<noteq> [] then
                        (let trim = TrimSuffix p (filepath_Ext p)
                         in if trim \<noteq> [] then trim else base0)
                      else base0);
          newID = base @ ''.webp'';
          newPath = Join env uploadDir newID
      in if Stat env newPath = None
         then (let base' = base @ ''_'' @ FormatInt (UnixNano_suffix env);
                   newID' = base' @ ''.webp''
               in (newID', Join env uploadDir newID'))
         else (newID, newPath))"

text \<open>
  The end of \<^verbatim>\<open>processConversionTask\<close>, after the record was stored: remove the original,
  read the ranked list and, if that worked, send it to the hub.
\<close>

definition publish ::
  "('t, 'p) worker_env \<Rightarrow> database \<Rightarrow> 't Picture list option" where
  "publish env db =
     (case GetAllPicturesSortedByLikes (GetAll_fault env) (Scan_lib env) db of
        Inl err \<Rightarrow> None
      | Inr pics \<Rightarrow> Some pics)"

definition store_converted ::
  "('t, 'p) worker_env \<Rightarrow> ConversionTask \<Rightarrow> string \<Rightarrow> string \<Rightarrow> bytes \<Rightarrow> database
     \<Rightarrow> go_error option \<times> database \<times> 't worker_effects" where
  "store_converted env task newID newPath processed db =
     (case PictureID task of
        Some oldID \<Rightarrow>
          if oldID \<noteq> [] then
            (case UpdatePictureFile (UpdatePictureFile_fault env) oldID newID (''/uploads/'' @ newID) db of
               (Some err, db') \<Rightarrow>
                 (Some (''update picture record: '' @ err), db',
                  no_effects\<lparr>written_file := Some (newPath, processed)\<rparr>)
             | (None, db') \<Rightarrow>
                 (None, db',
                  \<lparr>written_file = Some (newPath, processed),
                   removed_files =
                     (if Join env uploadDir oldID \<noteq> newPath then [Join env uploadDir oldID] else [])
                     @ [OriginalPath task],
                   broadcast = publish env db'\<rparr>))
          else
            (case AddPicture (AddPicture_fault env) (Format_RFC3339 env)
                    \<lparr>ID = newID, Filename = OriginalName task, URL = ''/uploads/'' @ newID,
                     Likes = 0, UploadedAt = Now env\<rparr> db of
               (Some err, db') \<Rightarrow>
                 (Some (''insert picture: '' @ err), db',
                  no_effects\<lparr>written_file := Some (newPath, processed)\<rparr>)
             | (None, db') \<Rightarrow>
                 (None, db',
                  \<lparr>written_file = Some (newPath, processed),
                   removed_files = [OriginalPath task],
                   broadcast = publish env db'\<rparr>))
      | None \<Rightarrow>
          (case AddPicture (AddPicture_fault env) (Format_RFC3339 env)
                  \<lparr>ID = newID, Filename = OriginalName task, URL = ''/uploads/'' @ newID,
                   Likes = 0, UploadedAt = Now env\<rparr> db of
             (Some err, db') \<Rightarrow>
               (Some (''insert picture: '' @ err), db',
                no_effects\<lparr>written_file := Some (newPath, processed)\<rparr>)
           | (None, db') \<Rightarrow>
               (None, db',
                \<lparr>written_file = Some (newPath, processed),
                 removed_files = [OriginalPath task],
                 broadcast = publish env db'\<rparr>)))"

definition processConversionTask ::
  "('t, 'p) worker_env \<Rightarrow> ConversionTask \<Rightarrow> database
     \<Rightarrow> go_error option \<times> database \<times> 't worker_effects" where
  "processConversionTask env task db =
     (case ReadFile env (OriginalPath task) of
        Inl err \<Rightarrow> (Some (''read original: '' @ err), db, no_effects)
      | Inr data \<Rightarrow>
          (case convertToWebP env data of
             Inl err \<Rightarrow> (Some (''convert to webp: '' @ err), db, no_effects)
           | Inr processed \<Rightarrow>
               (case MkdirAll env uploadDir of
                  Some err \<Rightarrow> (Some (''ensure upload dir: '' @ err), db, no_effects)
                | None \<Rightarrow>
                    (case new_name env task of
                       (newID, newPath) \<Rightarrow>
                         (case WriteFile env newPath processed of
                            Some err \<Rightarrow> (Some (''write converted file: '' @ err), db, no_effects)
                          | None \<Rightarrow> store_converted env task newID newPath processed db)))))"

subsection \<open>startConversionWorker\<close>

text \<open>
  One iteration of the worker's \<^verbatim>\<open>for\<close> loop. The errors that \<^verbatim>\<open>MarkTaskFailed\<close> and
  \<^verbatim>\<open>MarkTaskCompleted\<close> return are dropped by the source, so only the store they leave is used.
\<close>

datatype cycle_result =
    ClaimError go_error
  | Idle
  | Processed ConversionTask "go_error option"

definition worker_cycle ::
  "('t, 'p) worker_env \<Rightarrow> database \<Rightarrow> cycle_result \<times> database \<times> 't worker_effects" where
  "worker_cycle env db =
     (case ClaimNextTask (Claim_faults env) (Claim_now env) db of
        (Inl err, db1) \<Rightarrow> (ClaimError err, db1, no_effects)
      | (Inr None, db1) \<Rightarrow> (Idle, db1, no_effects)
      | (Inr (Some task), db1) \<Rightarrow>
          (case processConversionTask env task db1 of
             (Some err, db2, eff) \<Rightarrow>
               (Processed task (Some err),
                snd (MarkTaskFailed (Mark_fault env) (Mark_now env) (task_ID task) err db2), eff)
           | (None, db2, eff) \<Rightarrow>
               (Processed task None,
                snd (MarkTaskCompleted (Mark_fault env) (Mark_now env) (task_ID task) db2), eff)))"

text \<open>
  The loop never ends; the model runs it for the cycles whose environments are given and
  returns the store and what each cycle did.
\<close>

fun startConversionWorker ::
  "('t, 'p) worker_env list \<Rightarrow> database \<Rightarrow> cycle_result list \<times> database" where
  "startConversionWorker [] db = ([], db)"
| "startConversionWorker (env # envs) db =
     (case worker_cycle env db of
        (r, db', eff) \<Rightarrow>
          (case startConversionWorker envs db' of (rs, db'') \<Rightarrow> (r # rs, db'')))"

text \<open>The status and error of the rows with a given id.\<close>

definition task_state :: "database \<Rightarrow> int \<Rightarrow> (task_status \<times> string option) list" where
  "task_state db i =
     map (\<lambda>t. (Status t, Error t)) (filter (\<lambda>t. task_ID t = i) (conversion_tasks db))"

subsection \<open>A concrete environment\<close>

text \<open>
  An environment for the concrete instances: the file of task 3 holds a large JPEG, the
  file of task 4 holds bytes that no decoder accepts, no other file exists; the upload
  directory can be written, no name collides, and the backend executes every call.
\<close>

definition big_jpeg :: "unit image" where
  "big_jpeg = \<lparr>Dx = 4000, Dy = 3000, Pix = ()\<rparr>"

definition small_png :: "unit image" where
  "small_png = \<lparr>Dx = 800, Dy = 600, Pix = ()\<rparr>"

definition tall_png :: "unit image" where
  "tall_png = \<lparr>Dx = 1000, Dy = 5000, Pix = ()\<rparr>"

definition sample_env :: "(go_time, unit) worker_env" where
  "sample_env =
     \<lparr>ReadFile = (\<lambda>p. if p = ''uploads/original/3.jpg'' then Inr ''JPEG 4000x3000''
                      else if p = ''uploads/original/4.jpg'' then Inr ''not an image''
                      else Inl (''open '' @ p @ '': no such file or directory'')),
      MkdirAll = (\<lambda>p. None),
      Stat = (\<lambda>p. Some (''stat '' @ p @ '': no such file or directory'')),
      WriteFile = (\<lambda>p data. None),
      Join = (\<lambda>dir name. dir @ ''/'' @ name),
      UnixNano_base = 1730611800000000000,
      UnixNano_suffix = 1730611800000000999,
      Now = \<lparr>unix_sec = 1730611800, nsec = 0, zone_offset = 0\<rparr>,
      Format_RFC3339 = time_Format_RFC3339,
      Scan_lib = go_scan_lib,
      Decode = (\<lambda>data. if data = ''JPEG 4000x3000'' then Inr big_jpeg
                       else if data = ''PNG 800x600'' then Inr small_png
                       else if data = ''PNG 1000x5000'' then Inr tall_png
                       else Inl ''image: unknown format''),
      Lanczos = (\<lambda>img w h. ()),
      Encode = (\<lambda>img quality. Inr (''WEBP '' @ FormatInt (Dx img) @ ''x'' @ FormatInt (Dy img)
                                    @ '' q'' @ FormatInt (int quality))),
      Claim_faults = no_claim_faults,
      Claim_now = 500,
      UpdatePictureFile_fault = None,
      AddPicture_fault = None,
      GetAll_fault = None,
      Mark_fault = None,
      Mark_now = 501\<rparr>"

text \<open>
  A store with one legacy picture and a pending task to convert it again, and an
  environment in which the legacy file can be read.
\<close>

definition legacy_store :: database where
  "legacy_store = \<lparr>pictures =
      [\<lparr>row_id = ''cat.png'', row_filename = ''my cat.png'', row_url = ''/uploads/cat.png'',
        row_likes = 12, row_uploaded_at = ''2023-01-05T08:00:00Z''\<rparr>,
       \<lparr>row_id = ''dog.webp'', row_filename = ''dog.png'', row_url = ''/uploads/dog.webp'',
        row_likes = 3, row_uploaded_at = ''2023-02-05T08:00:00Z''\<rparr>],
     conversion_tasks =
       [\<lparr>task_ID = 1, OriginalPath = ''uploads/cat.png'', OriginalName = ''my cat.png'',
         PictureID = Some ''cat.png'', Status = Processing, Error = None,
         CreatedAt = 100, UpdatedAt = 500\<rparr>],
     task_seq = 1\<rparr>"

definition legacy_task :: ConversionTask where
  "legacy_task = \<lparr>task_ID = 1, OriginalPath = ''uploads/cat.png'', OriginalName = ''my cat.png'',
         PictureID = Some ''cat.png'', Status = Pending, Error = None,
         CreatedAt = 100, UpdatedAt = 100\<rparr>"

definition legacy_env :: "(go_time, unit) worker_env" where
  "legacy_env = sample_env\<lparr>ReadFile := (\<lambda>p. if p = ''uploads/cat.png'' then Inr ''JPEG 4000x3000''
                      else Inl (''open '' @ p @ '': no such file or directory''))\<rparr>"

text \<open>The four cycles that the worker runs on \<open>four_tasks\<close> in the concrete instance.\<close>

definition four_cycles :: "(go_time, unit) worker_env list" where
  "four_cycles = [sample_env, sample_env, sample_env, sample_env]"

text \<open>The same environment with a backend that refuses the statement that marks the task.\<close>

definition locked_env :: "(go_time, unit) worker_env" where
  "locked_env = sample_env\<lparr>Mark_fault := Some ''database is locked''\<rparr>"

text \<open>
  \<open>same_rows_advanced ts ts'\<close>: the table has the same rows as before, none of them at an
  earlier position in its life.
\<close>

definition same_rows_advanced :: "ConversionTask list \<Rightarrow> ConversionTask list \<Rightarrow> bool" where
  "same_rows_advanced ts ts' \<longleftrightarrow> tasks_advance ts ts' \<and> length ts' = length ts"


section \<open>Likes\<close>

lemma sqlite_add_one_below: "l < max_int64 \<Longrightarrow> sqlite_add_one l = l + 1"
  by (simp add: sqlite_add_one_def)

lemma IncrementLikes_None_eq:
  "IncrementLikes None i db =
     (if i \<in> set (map row_id (pictures db)) then None else Some ''picture not found'',
      db\<lparr>pictures := map (\<lambda>r. if row_id r = i then r\<lparr>row_likes := sqlite_add_one (row_likes r)\<rparr>
                                else r)
                        (pictures db)\<rparr>)"
  by (auto simp: IncrementLikes_def Let_def filter_empty_conv)

lemma bump_absent:
  "i \<notin> set (map row_id rs) \<Longrightarrow>
     map (\<lambda>r. if row_id r = i then r\<lparr>row_likes := g (row_likes r)\<rparr> else r) rs = rs"
  by (induction rs) auto

lemma IncrementLikes_absent:
  "i \<notin> set (map row_id (pictures db)) \<Longrightarrow>
     IncrementLikes None i db = (Some ''picture not found'', db)"
  by (simp add: IncrementLikes_None_eq bump_absent del: set_map)

lemma likeCount_bump:
  "likeCount (db\<lparr>pictures := map (\<lambda>r. if row_id r = i then r\<lparr>row_likes := g (row_likes r)\<rparr> else r)
                        (pictures db)\<rparr>) j
     = (if j = i then map_option g (likeCount db j) else likeCount db j)"
proof -
  have "likeCount (db\<lparr>pictures := map (\<lambda>r. if row_id r = i then r\<lparr>row_likes := g (row_likes r)\<rparr> else r) rs\<rparr>) j
     = (if j = i then map_option g (likeCount (db\<lparr>pictures := rs\<rparr>) j)
        else likeCount (db\<lparr>pictures := rs\<rparr>) j)" for rs
    by (induction rs) (auto simp: likeCount_def)
  from this [of "pictures db"] show ?thesis by simp
qed

lemma likeCount_bounded:
  assumes "\<forall>r\<in>set (pictures db). row_id r = i \<longrightarrow> row_likes r \<le> b"
  shows "\<forall>l. likeCount db i = Some l \<longrightarrow> l \<le> b"
proof (intro allI impI)
  fix l
  assume "likeCount db i = Some l"
  then obtain r rs where f: "filter (\<lambda>r. row_id r = i) (pictures db) = r # rs" and l: "l = row_likes r"
    by (auto simp: likeCount_def split: list.splits)
  from f have "r \<in> set (filter (\<lambda>r. row_id r = i) (pictures db))"
    by simp
  with assms l show "l \<le> b"
    by simp
qed

lemma bump_rows_below:
  assumes "\<forall>r\<in>set rs. row_id r = i \<longrightarrow> row_likes r < max_int64"
  shows "map (\<lambda>r. if row_id r = i then r\<lparr>row_likes := sqlite_add_one (row_likes r)\<rparr> else r) rs
         = map (\<lambda>r. if row_id r = i then r\<lparr>row_likes := row_likes r + 1\<rparr> else r) rs"
  using assms by (induction rs) (auto simp: sqlite_add_one_below)

lemma IncrementLikes_below:
  assumes "\<forall>r\<in>set (pictures db). row_id r = i \<longrightarrow> row_likes r < max_int64"
  shows "IncrementLikes None i db =
     (if i \<in> set (map row_id (pictures db)) then None else Some ''picture not found'',
      db\<lparr>pictures := map (\<lambda>r. if row_id r = i then r\<lparr>row_likes := row_likes r + 1\<rparr> else r)
                        (pictures db)\<rparr>)"
  by (simp only: IncrementLikes_None_eq bump_rows_below [OF assms])

lemma map_row_id_bump:
  "map row_id (map (\<lambda>r. if row_id r = i then r\<lparr>row_likes := g (row_likes r)\<rparr> else r) rs)
     = map row_id rs"
  by (induction rs) auto

lemma IncrementLikes_n_present:
  "i \<in> set (map row_id (pictures db)) \<Longrightarrow>
   \<forall>r\<in>set (pictures db). row_id r = i \<longrightarrow> row_likes r + int n \<le> max_int64 \<Longrightarrow>
     fst (IncrementLikes_n n i db) = replicate n None
     \<and> likeCount (snd (IncrementLikes_n n i db)) i = map_option (\<lambda>l. l + int n) (likeCount db i)"
proof (induction n arbitrary: db)
  case 0
  then show ?case by (simp add: option.map_ident)
next
  case (Suc n)
  let ?db' = "snd (IncrementLikes None i db)"
  have below: "\<forall>r\<in>set (pictures db). row_id r = i \<longrightarrow> row_likes r < max_int64"
  proof (intro ballI impI)
    fix r
    assume "r \<in> set (pictures db)" "row_id r = i"
    with Suc.prems(2) have "row_likes r + int (Suc n) \<le> max_int64"
      by blast
    then show "row_likes r < max_int64"
      by simp
  qed
  note eq = IncrementLikes_below [OF below]
  have rows: "pictures ?db'
      = map (\<lambda>r. if row_id r = i then r\<lparr>row_likes := row_likes r + 1\<rparr> else r) (pictures db)"
    by (simp add: eq)
  have p: "i \<in> set (map row_id (pictures ?db'))"
  proof -
    have "map row_id (pictures ?db') = map row_id (pictures db)"
      unfolding rows by (rule map_row_id_bump)
    with Suc.prems(1) show ?thesis
      by simp
  qed
  have b: "\<forall>r\<in>set (pictures ?db'). row_id r = i \<longrightarrow> row_likes r + int n \<le> max_int64"
  proof (intro ballI impI)
    fix r'
    assume m: "r' \<in> set (pictures ?db')" and i: "row_id r' = i"
    from m obtain r where r: "r \<in> set (pictures db)"
        and r': "r' = (if row_id r = i then r\<lparr>row_likes := row_likes r + 1\<rparr> else r)"
      unfolding rows by auto
    from i r' have ri: "row_id r = i"
      by (simp split: if_splits)
    with Suc.prems(2) r have "row_likes r + int (Suc n) \<le> max_int64"
      by blast
    with r' ri show "row_likes r' + int n \<le> max_int64"
      by simp
  qed
  have l: "likeCount ?db' i = map_option (\<lambda>l. l + 1) (likeCount db i)"
    by (simp add: eq likeCount_bump [where g = "\<lambda>l. l + 1"])
  have r: "fst (IncrementLikes None i db) = None"
    using Suc.prems(1) by (simp add: eq del: set_map)
  have step: "IncrementLikes_n (Suc n) i db
      = (fst (IncrementLikes None i db) # fst (IncrementLikes_n n i ?db'),
         snd (IncrementLikes_n n i ?db'))"
    by (simp add: case_prod_beta)
  note ih1 = Suc.IH [OF p b, THEN conjunct1]
  note ih2 = Suc.IH [OF p b, THEN conjunct2]
  have "fst (IncrementLikes_n (Suc n) i db) = replicate (Suc n) None"
    by (simp only: step fst_conv r ih1 replicate.simps)
  moreover have "likeCount (snd (IncrementLikes_n (Suc n) i db)) i
      = map_option (\<lambda>l. l + int (Suc n)) (likeCount db i)"
    by (simp only: step snd_conv ih2 l) (cases "likeCount db i"; simp)
  ultimately show ?case
    by (rule conjI)
qed

text \<open>
  At the end of the 64-bit range the statement stops counting: the like that finds the
  count at 9223372036854775807 turns the column into the REAL 9223372036854775808.0, and
  every later like leaves that REAL as it is while the call still returns success.
\<close>

lemma IncrementLikes_at_the_bound:
  "likeCount (snd (IncrementLikes_n 1 ''a.webp'' (two_pictures\<lparr>pictures :=
       map (\<lambda>r. r\<lparr>row_likes := max_int64\<rparr>) (pictures two_pictures)\<rparr>))) ''a.webp''
     = Some (max_int64 + 1)
   \<and> likeCount (snd (IncrementLikes_n 3 ''a.webp'' (two_pictures\<lparr>pictures :=
       map (\<lambda>r. r\<lparr>row_likes := max_int64\<rparr>) (pictures two_pictures)\<rparr>))) ''a.webp''
     = Some (max_int64 + 1)
   \<and> fst (IncrementLikes_n 3 ''a.webp'' (two_pictures\<lparr>pictures :=
       map (\<lambda>r. r\<lparr>row_likes := max_int64\<rparr>) (pictures two_pictures)\<rparr>)) = [None, None, None]"
  by code_simp

text \<open>
  Claim C6. When the backend executes the statement, \<^verbatim>\<open>IncrementLikes\<close> on an id that is in
  the table returns success, adds exactly one to the like count of the rows with that id
  and leaves every other row, every other column and the task table as they were; \<open>n\<close>
  like requests in a row all succeed and raise the count by \<open>n\<close>. Both hold while the count
  stays within the 64-bit INTEGER of the column: for one like the count is below
  9223372036854775807, for \<open>n\<close> likes the count plus \<open>n\<close> does not exceed it. On an id that
  is not in the table the call returns the error \<^verbatim>\<open>picture not found\<close> and the store is
  unchanged.
\<close>

theorem IncrementLikes_adds_exactly_one:
  "(i \<in> set (map row_id (pictures db))
      \<and> (\<forall>r\<in>set (pictures db). row_id r = i \<longrightarrow> row_likes r < max_int64) \<longrightarrow>
      fst (IncrementLikes None i db) = None
      \<and> list_all2 (\<lambda>r r'. if row_id r = i then r' = r\<lparr>row_likes := row_likes r + 1\<rparr> else r' = r)
          (pictures db) (pictures (snd (IncrementLikes None i db)))
      \<and> conversion_tasks (snd (IncrementLikes None i db)) = conversion_tasks db
      \<and> task_seq (snd (IncrementLikes None i db)) = task_seq db
      \<and> likeCount (snd (IncrementLikes None i db)) i = map_option (\<lambda>l. l + 1) (likeCount db i))
   \<and> (i \<in> set (map row_id (pictures db))
      \<and> (\<forall>r\<in>set (pictures db). row_id r = i \<longrightarrow> row_likes r + int n \<le> max_int64) \<longrightarrow>
      fst (IncrementLikes_n n i db) = replicate n None
      \<and> likeCount (snd (IncrementLikes_n n i db)) i = map_option (\<lambda>l. l + int n) (likeCount db i))
   \<and> (i \<notin> set (map row_id (pictures db)) \<longrightarrow>
      IncrementLikes None i db = (Some ''picture not found'', db))"
proof (intro conjI impI)
  assume "i \<in> set (map row_id (pictures db))
      \<and> (\<forall>r\<in>set (pictures db). row_id r = i \<longrightarrow> row_likes r < max_int64)"
  then have p: "i \<in> set (map row_id (pictures db))"
    and below: "\<forall>r\<in>set (pictures db). row_id r = i \<longrightarrow> row_likes r < max_int64"
    by blast+
  note eq = IncrementLikes_below [OF below]
  show "fst (IncrementLikes None i db) = None"
    using p by (simp add: eq del: set_map)
  show "list_all2 (\<lambda>r r'. if row_id r = i then r' = r\<lparr>row_likes := row_likes r + 1\<rparr> else r' = r)
          (pictures db) (pictures (snd (IncrementLikes None i db)))"
    by (simp add: eq list_all2_map2 list_all2_same)
  show "conversion_tasks (snd (IncrementLikes None i db)) = conversion_tasks db"
    by (simp add: eq)
  show "task_seq (snd (IncrementLikes None i db)) = task_seq db"
    by (simp add: eq)
  show "likeCount (snd (IncrementLikes None i db)) i = map_option (\<lambda>l. l + 1) (likeCount db i)"
    by (simp add: eq likeCount_bump [where g = "\<lambda>l. l + 1"])
next
  assume "i \<in> set (map row_id (pictures db))
      \<and> (\<forall>r\<in>set (pictures db). row_id r = i \<longrightarrow> row_likes r + int n \<le> max_int64)"
  then have p: "i \<in> set (map row_id (pictures db))"
    and b: "\<forall>r\<in>set (pictures db). row_id r = i \<longrightarrow> row_likes r + int n \<le> max_int64"
    by blast+
  show "fst (IncrementLikes_n n i db) = replicate n None"
    using IncrementLikes_n_present [OF p b] by simp
  show "likeCount (snd (IncrementLikes_n n i db)) i = map_option (\<lambda>l. l + int n) (likeCount db i)"
    using IncrementLikes_n_present [OF p b] by simp
next
  assume "i \<notin> set (map row_id (pictures db))"
  then show "IncrementLikes None i db = (Some ''picture not found'', db)"
    by (rule IncrementLikes_absent)
qed

theorem IncrementLikes_adds_exactly_one_witness:
  "''a.webp'' \<in> set (map row_id (pictures two_pictures))
   \<and> ''c.webp'' \<notin> set (map row_id (pictures two_pictures))
   \<and> map row_likes (filter (\<lambda>r. row_id r = ''a.webp'') (pictures two_pictures)) = [4]
   \<and> (4 :: int) + 3 \<le> max_int64
   \<and> likeCount two_pictures ''a.webp'' = Some 4
   \<and> fst (IncrementLikes None ''a.webp'' two_pictures) = None
   \<and> likeCount (snd (IncrementLikes None ''a.webp'' two_pictures)) ''a.webp'' = Some 5
   \<and> fst (IncrementLikes_n 3 ''a.webp'' two_pictures) = [None, None, None]
   \<and> likeCount (snd (IncrementLikes_n 3 ''a.webp'' two_pictures)) ''a.webp'' = Some 7
   \<and> likeCount (snd (IncrementLikes None ''a.webp'' two_pictures)) ''b.webp'' = Some 0
   \<and> IncrementLikes None ''c.webp'' two_pictures = (Some ''picture not found'', two_pictures)"
proof -
  have a: "''a.webp'' \<in> set (map row_id (pictures two_pictures))"
    by (simp add: two_pictures_def)
  have c: "''c.webp'' \<notin> set (map row_id (pictures two_pictures))"
    by (simp add: two_pictures_def)
  have f: "map row_likes (filter (\<lambda>r. row_id r = ''a.webp'') (pictures two_pictures)) = [4]"
    by (simp add: two_pictures_def)
  have m: "(4 :: int) + 3 \<le> max_int64"
    by (simp add: max_int64_def)
  have b1: "\<forall>r\<in>set (pictures two_pictures). row_id r = ''a.webp'' \<longrightarrow> row_likes r < max_int64"
    by (simp add: two_pictures_def max_int64_def)
  have b3: "\<forall>r\<in>set (pictures two_pictures). row_id r = ''a.webp'' \<longrightarrow> row_likes r + int 3 \<le> max_int64"
    by (simp add: two_pictures_def max_int64_def)
  have l: "likeCount two_pictures ''a.webp'' = Some 4"
    by (simp add: two_pictures_def likeCount_def)
  have b: "likeCount (snd (IncrementLikes None ''a.webp'' two_pictures)) ''b.webp'' = Some 0"
    by (simp add: two_pictures_def likeCount_def IncrementLikes_def)
  note one = IncrementLikes_adds_exactly_one [of "''a.webp''" two_pictures 3,
      THEN conjunct1, THEN mp, OF conjI [OF a b1]]
  note many = IncrementLikes_adds_exactly_one [of "''a.webp''" two_pictures 3,
      THEN conjunct2, THEN conjunct1, THEN mp, OF conjI [OF a b3]]
  note absent = IncrementLikes_adds_exactly_one [of "''c.webp''" two_pictures 0,
      THEN conjunct2, THEN conjunct2, THEN mp, OF c]
  have s1: "fst (IncrementLikes None ''a.webp'' two_pictures) = None"
    by (rule one [THEN conjunct1])
  have "likeCount (snd (IncrementLikes None ''a.webp'' two_pictures)) ''a.webp''
      = map_option (\<lambda>l. l + 1) (likeCount two_pictures ''a.webp'')"
    by (rule one [THEN conjunct2, THEN conjunct2, THEN conjunct2, THEN conjunct2])
  then have s2: "likeCount (snd (IncrementLikes None ''a.webp'' two_pictures)) ''a.webp'' = Some 5"
    by (simp only: l option.map) simp
  have "fst (IncrementLikes_n 3 ''a.webp'' two_pictures) = replicate 3 None"
    by (rule many [THEN conjunct1])
  then have s3: "fst (IncrementLikes_n 3 ''a.webp'' two_pictures) = [None, None, None]"
    by (simp only: numeral_3_eq_3 replicate.simps)
  have "likeCount (snd (IncrementLikes_n 3 ''a.webp'' two_pictures)) ''a.webp''
      = map_option (\<lambda>l. l + int 3) (likeCount two_pictures ''a.webp'')"
    by (rule many [THEN conjunct2])
  then have s4: "likeCount (snd (IncrementLikes_n 3 ''a.webp'' two_pictures)) ''a.webp'' = Some 7"
    by (simp only: l option.map) simp
  note s5 = absent
  from a c f m l s1 s2 s3 s4 b s5 show ?thesis
    by (intro conjI)
qed

section \<open>Creating tasks\<close>

lemma CreateConversionTask_present:
  "path \<in> set (map OriginalPath (conversion_tasks db)) \<Longrightarrow>
     CreateConversionTask None now path name pic db = (None, db\<lparr>task_seq := next_task_id db\<rparr>)"
  by (simp add: CreateConversionTask_def del: set_map)

lemma CreateConversionTask_absent:
  "path \<notin> set (map OriginalPath (conversion_tasks db)) \<Longrightarrow>
     fst (CreateConversionTask None now path name pic db) = None
     \<and> conversion_tasks (snd (CreateConversionTask None now path name pic db)) =
         conversion_tasks db @
           [\<lparr>task_ID = next_task_id db, OriginalPath = path, OriginalName = name,
             PictureID = (if pic = [] then None else Some pic),
             Status = Pending, Error = None, CreatedAt = now, UpdatedAt = now\<rparr>]"
  by (simp add: CreateConversionTask_def del: set_map)

lemma CreateConversionTask_path_stored:
  "path \<in> set (map OriginalPath (conversion_tasks (snd (CreateConversionTask None now path name pic db))))"
  by (auto simp: CreateConversionTask_def)

lemma CreateConversionTask_distinct_paths:
  "distinct (map OriginalPath (conversion_tasks db)) \<Longrightarrow>
     distinct (map OriginalPath (conversion_tasks (snd (CreateConversionTask f now path name pic db))))"
  by (cases f) (auto simp: CreateConversionTask_def)

lemma count_one_of_distinct:
  "distinct (map f xs) \<Longrightarrow> k \<in> set (map f xs) \<Longrightarrow> length (filter (\<lambda>x. f x = k) xs) = 1"
proof (induction xs)
  case Nil
  then show ?case by simp
next
  case (Cons x xs)
  show ?case
  proof (cases "f x = k")
    case True
    from Cons.prems have "f x \<notin> f ` set xs" by simp
    with True have "\<forall>y\<in>set xs. f y \<noteq> k" by blast
    then have "filter (\<lambda>x. f x = k) xs = []"
      by (simp add: filter_empty_conv)
    with True show ?thesis by simp
  next
    case False
    with Cons show ?thesis by auto
  qed
qed

text \<open>
  The insert that is ignored has drawn an id all the same: the next task gets the id after
  it. A task created in the empty store, the same path once more, then another path: the
  ids are 1 and 3.
\<close>

lemma CreateConversionTask_ignored_draws_id:
  "map task_ID (conversion_tasks (snd (CreateConversionTask None 3 ''uploads/original/b.jpg'' ''b.jpg'' []
      (snd (CreateConversionTask None 2 ''uploads/original/a.jpg'' ''a.jpg'' []
        (snd (CreateConversionTask None 1 ''uploads/original/a.jpg'' ''a.jpg'' [] empty_database)))))))
   = [1, 3]"
  by (simp add: CreateConversionTask_def empty_database_def next_task_id_def)

text \<open>
  Claim C3. In a table whose paths are distinct (the UNIQUE constraint on
  \<^verbatim>\<open>original_path\<close>), two calls of \<^verbatim>\<open>CreateConversionTask\<close> with the same path both succeed,
  the second leaves the rows of both tables as they are, and exactly one row with that path
  is stored afterwards. A call for a path that already has a row, whatever its status,
  succeeds and changes no row; a call for a new path appends one pending row.
\<close>

theorem CreateConversionTask_twice_one_task:
  assumes "distinct (map OriginalPath (conversion_tasks db))"
  shows "fst (CreateConversionTask None now1 path name1 pic1 db) = None
    \<and> fst (CreateConversionTask None now2 path name2 pic2
          (snd (CreateConversionTask None now1 path name1 pic1 db))) = None
    \<and> conversion_tasks (snd (CreateConversionTask None now2 path name2 pic2
          (snd (CreateConversionTask None now1 path name1 pic1 db))))
        = conversion_tasks (snd (CreateConversionTask None now1 path name1 pic1 db))
    \<and> pictures (snd (CreateConversionTask None now2 path name2 pic2
          (snd (CreateConversionTask None now1 path name1 pic1 db))))
        = pictures (snd (CreateConversionTask None now1 path name1 pic1 db))
    \<and> length (filter (\<lambda>t. OriginalPath t = path)
          (conversion_tasks (snd (CreateConversionTask None now2 path name2 pic2
             (snd (CreateConversionTask None now1 path name1 pic1 db)))))) = 1
    \<and> (path \<in> set (map OriginalPath (conversion_tasks db)) \<longrightarrow>
          fst (CreateConversionTask None now1 path name1 pic1 db) = None
          \<and> conversion_tasks (snd (CreateConversionTask None now1 path name1 pic1 db))
              = conversion_tasks db
          \<and> pictures (snd (CreateConversionTask None now1 path name1 pic1 db)) = pictures db)
    \<and> (path \<notin> set (map OriginalPath (conversion_tasks db)) \<longrightarrow>
          (\<exists>t. conversion_tasks (snd (CreateConversionTask None now1 path name1 pic1 db))
                 = conversion_tasks db @ [t]
               \<and> OriginalPath t = path \<and> Status t = Pending)
          \<and> pictures (snd (CreateConversionTask None now1 path name1 pic1 db)) = pictures db)"
proof -
  let ?db1 = "snd (CreateConversionTask None now1 path name1 pic1 db)"
  let ?db2 = "snd (CreateConversionTask None now2 path name2 pic2 ?db1)"
  have stored: "path \<in> set (map OriginalPath (conversion_tasks ?db1))"
    by (rule CreateConversionTask_path_stored)
  have second: "CreateConversionTask None now2 path name2 pic2 ?db1
      = (None, ?db1\<lparr>task_seq := next_task_id ?db1\<rparr>)"
    using stored by (rule CreateConversionTask_present)
  have s1: "fst (CreateConversionTask None now2 path name2 pic2 ?db1) = None"
    by (simp add: second)
  have s2: "conversion_tasks ?db2 = conversion_tasks ?db1"
    by (simp add: second)
  have s3: "pictures ?db2 = pictures ?db1"
    by (simp add: second)
  have d1: "distinct (map OriginalPath (conversion_tasks ?db1))"
    using assms by (rule CreateConversionTask_distinct_paths)
  have "length (filter (\<lambda>t. OriginalPath t = path) (conversion_tasks ?db1)) = 1"
    using d1 stored by (rule count_one_of_distinct)
  then have one: "length (filter (\<lambda>t. OriginalPath t = path) (conversion_tasks ?db2)) = 1"
    by (simp only: s2)
  have first: "fst (CreateConversionTask None now1 path name1 pic1 db) = None"
    by (simp add: CreateConversionTask_def)
  have present: "path \<in> set (map OriginalPath (conversion_tasks db)) \<longrightarrow>
          fst (CreateConversionTask None now1 path name1 pic1 db) = None
          \<and> conversion_tasks ?db1 = conversion_tasks db \<and> pictures ?db1 = pictures db"
    using CreateConversionTask_present [of path db now1 name1 pic1] by simp
  have absent: "path \<notin> set (map OriginalPath (conversion_tasks db)) \<longrightarrow>
          (\<exists>t. conversion_tasks ?db1 = conversion_tasks db @ [t]
               \<and> OriginalPath t = path \<and> Status t = Pending)
          \<and> pictures ?db1 = pictures db"
    using CreateConversionTask_absent [of path db now1 name1 pic1]
    by (auto simp: CreateConversionTask_def)
  from first s1 s2 s3 one present absent show ?thesis
    by (intro conjI)
qed

theorem CreateConversionTask_twice_one_task_witness:
  "distinct (map OriginalPath (conversion_tasks four_tasks))
   \<and> ''uploads/original/2.jpg'' \<in> set (map OriginalPath (conversion_tasks four_tasks))
   \<and> ''uploads/original/9.jpg'' \<notin> set (map OriginalPath (conversion_tasks four_tasks))
   \<and> fst (CreateConversionTask None 300 ''uploads/original/2.jpg'' ''again.jpg'' [] four_tasks) = None
   \<and> conversion_tasks (snd (CreateConversionTask None 300 ''uploads/original/2.jpg'' ''again.jpg'' []
        four_tasks)) = conversion_tasks four_tasks
   \<and> pictures (snd (CreateConversionTask None 300 ''uploads/original/2.jpg'' ''again.jpg'' []
        four_tasks)) = pictures four_tasks
   \<and> length (filter (\<lambda>t. OriginalPath t = ''uploads/original/9.jpg'')
        (conversion_tasks (snd (CreateConversionTask None 301 ''uploads/original/9.jpg'' ''n.jpg'' []
           (snd (CreateConversionTask None 300 ''uploads/original/9.jpg'' ''n.jpg'' [] four_tasks)))))) = 1"
proof -
  have d: "distinct (map OriginalPath (conversion_tasks four_tasks))"
    by (simp add: four_tasks_def mk_task_def)
  have p: "''uploads/original/2.jpg'' \<in> set (map OriginalPath (conversion_tasks four_tasks))"
    by (simp add: four_tasks_def mk_task_def)
  have q: "''uploads/original/9.jpg'' \<notin> set (map OriginalPath (conversion_tasks four_tasks))"
    by (simp add: four_tasks_def mk_task_def)
  from CreateConversionTask_twice_one_task [OF d, of 300 "''uploads/original/2.jpg''" "''again.jpg''" "[]" 301 "''again.jpg''" "[]"]
       p
  have a: "fst (CreateConversionTask None 300 ''uploads/original/2.jpg'' ''again.jpg'' [] four_tasks) = None
    \<and> conversion_tasks (snd (CreateConversionTask None 300 ''uploads/original/2.jpg'' ''again.jpg'' []
        four_tasks)) = conversion_tasks four_tasks
    \<and> pictures (snd (CreateConversionTask None 300 ''uploads/original/2.jpg'' ''again.jpg'' []
        four_tasks)) = pictures four_tasks"
    by blast
  from CreateConversionTask_twice_one_task [OF d, of 300 "''uploads/original/9.jpg''" "''n.jpg''" "[]" 301 "''n.jpg''" "[]"]
  have b: "length (filter (\<lambda>t. OriginalPath t = ''uploads/original/9.jpg'')
        (conversion_tasks (snd (CreateConversionTask None 301 ''uploads/original/9.jpg'' ''n.jpg'' []
           (snd (CreateConversionTask None 300 ''uploads/original/9.jpg'' ''n.jpg'' [] four_tasks)))))) = 1"
    by blast
  from d p q a b show ?thesis
    by (intro conjI) blast+
qed

section \<open>Claiming a task\<close>

lemma sort_key_head:
  assumes "sort_key f xs = t # ts"
  shows "t \<in> set xs \<and> (\<forall>u\<in>set xs. f t \<le> f u)"
proof -
  have s: "sorted (map f (sort_key f xs))" by simp
  have m: "set (sort_key f xs) = set xs" by simp
  from s assms have "\<forall>u\<in>set ts. f t \<le> f u" by auto
  moreover from m assms have "set xs = insert t (set ts)" by auto
  ultimately show ?thesis by auto
qed

lemma claim_select_None:
  "claim_select db = None \<longleftrightarrow> (\<forall>t\<in>set (conversion_tasks db). Status t \<noteq> Pending)"
proof -
  have "sort_key CreatedAt (filter (\<lambda>t. Status t = Pending) (conversion_tasks db)) = []
        \<longleftrightarrow> filter (\<lambda>t. Status t = Pending) (conversion_tasks db) = []"
    by (metis length_sort length_0_conv)
  then show ?thesis
    by (auto simp: claim_select_def filter_empty_conv split: list.splits)
qed

lemma claim_select_Some:
  assumes "claim_select db = Some task"
  shows "task \<in> set (conversion_tasks db) \<and> Status task = Pending
         \<and> (\<forall>u\<in>set (conversion_tasks db). Status u = Pending \<longrightarrow> CreatedAt task \<le> CreatedAt u)"
proof -
  from assms obtain ts where
    "sort_key CreatedAt (filter (\<lambda>t. Status t = Pending) (conversion_tasks db)) = task # ts"
    by (auto simp: claim_select_def split: list.splits)
  from sort_key_head [OF this] show ?thesis by auto
qed

lemma claim_update_rows_pos:
  "t \<in> set (conversion_tasks db) \<Longrightarrow> Status t = Pending \<Longrightarrow>
     fst (claim_update now (task_ID t) db) \<noteq> 0"
  by (auto simp: claim_update_def filter_empty_conv)

lemma claim_update_none_pending:
  "fst (claim_update now2 i (snd (claim_update now i db))) = 0"
  by (auto simp: claim_update_def filter_empty_conv)

lemma claim_update_tables:
  "conversion_tasks (snd (claim_update now i db)) =
     map (\<lambda>t. if task_ID t = i \<and> Status t = Pending
              then t\<lparr>Status := Processing, UpdatedAt := now\<rparr> else t) (conversion_tasks db)
   \<and> pictures (snd (claim_update now i db)) = pictures db
   \<and> task_seq (snd (claim_update now i db)) = task_seq db"
  by (simp add: claim_update_def)

lemma claim_finish_no_faults:
  "claim_finish no_claim_faults now task db =
     (if fst (claim_update now (task_ID task) db) = 0 then (Inr None, db)
      else (Inr (Some task), snd (claim_update now (task_ID task) db)))"
  by (simp add: claim_finish_def no_claim_faults_def)

lemma ClaimNextTask_no_faults:
  "ClaimNextTask no_claim_faults now db =
     (case claim_select db of None \<Rightarrow> (Inr None, db)
      | Some task \<Rightarrow> claim_finish no_claim_faults now task db)"
  by (simp add: ClaimNextTask_def claim_begin_def no_claim_faults_def split: option.splits)

lemma claim_update_changes_store:
  assumes "t \<in> set (conversion_tasks db)" and "Status t = Pending"
  shows "snd (claim_update now (task_ID t) db) \<noteq> db"
proof
  assume "snd (claim_update now (task_ID t) db) = db"
  then have "conversion_tasks (snd (claim_update now (task_ID t) db)) = conversion_tasks db"
    by simp
  then have "map (\<lambda>u. if task_ID u = task_ID t \<and> Status u = Pending
              then u\<lparr>Status := Processing, UpdatedAt := now\<rparr> else u) (conversion_tasks db)
      = map (\<lambda>u. u) (conversion_tasks db)"
    by (simp add: claim_update_tables)
  then have "\<forall>u\<in>set (conversion_tasks db).
      (if task_ID u = task_ID t \<and> Status u = Pending
       then u\<lparr>Status := Processing, UpdatedAt := now\<rparr> else u) = u"
    by (simp only: map_eq_conv)
  with assms have "t\<lparr>Status := Processing, UpdatedAt := now\<rparr> = t"
    by auto
  then have "Status (t\<lparr>Status := Processing, UpdatedAt := now\<rparr>) = Status t"
    by simp
  with assms(2) show False
    by simp
qed

lemma claim_finish_refused:
  "db' \<noteq> db \<Longrightarrow>
     claim_finish (claim_faults_after db db') now task db' = (Inl ''database is locked'', db')"
  by (simp add: claim_finish_def claim_faults_after_def sqlite_busy_def no_claim_faults_def)

lemma claim_faults_after_same: "claim_faults_after db db = no_claim_faults"
  by (simp add: claim_faults_after_def sqlite_busy_def no_claim_faults_def)

text \<open>
  Claim C1 as stated, at an input where it fails. Two callers run the SELECT of
  \<^verbatim>\<open>ClaimNextTask\<close> on \<open>four_tasks\<close> and both read task 3, the oldest pending one. The first
  runs its UPDATE and commits. The second then runs its UPDATE: SQLite refuses it, and the
  call returns the error \<^verbatim>\<open>database is locked\<close> where the claim promises no task and no
  error.
\<close>

theorem race_loser_gets_an_error:
  "claim_begin no_claim_faults four_tasks
     = Inr (Some (mk_task 3 ''uploads/original/3.jpg'' Pending 210))
   \<and> fst (ClaimNextTask no_claim_faults 500 four_tasks)
     = Inr (Some (mk_task 3 ''uploads/original/3.jpg'' Pending 210))
   \<and> snd (ClaimNextTask no_claim_faults 500 four_tasks) \<noteq> four_tasks
   \<and> claim_finish
       (claim_faults_after four_tasks (snd (ClaimNextTask no_claim_faults 500 four_tasks)))
       501 (mk_task 3 ''uploads/original/3.jpg'' Pending 210)
       (snd (ClaimNextTask no_claim_faults 500 four_tasks))
     = (Inl ''database is locked'', snd (ClaimNextTask no_claim_faults 500 four_tasks))
   \<and> fst (claim_finish
       (claim_faults_after four_tasks (snd (ClaimNextTask no_claim_faults 500 four_tasks)))
       501 (mk_task 3 ''uploads/original/3.jpg'' Pending 210)
       (snd (ClaimNextTask no_claim_faults 500 four_tasks)))
     \<noteq> Inr None"
proof -
  have sel: "claim_select four_tasks = Some (mk_task 3 ''uploads/original/3.jpg'' Pending 210)"
    by (simp add: claim_select_def four_tasks_def mk_task_def)
  then have b: "claim_begin no_claim_faults four_tasks
     = Inr (Some (mk_task 3 ''uploads/original/3.jpg'' Pending 210))"
    by (simp add: claim_begin_def no_claim_faults_def)
  have m: "mk_task 3 ''uploads/original/3.jpg'' Pending 210 \<in> set (conversion_tasks four_tasks)"
    and st: "Status (mk_task 3 ''uploads/original/3.jpg'' Pending 210) = Pending"
    by (simp_all add: four_tasks_def mk_task_def)
  have pos: "fst (claim_update 500 (task_ID (mk_task 3 ''uploads/original/3.jpg'' Pending 210))
      four_tasks) \<noteq> 0"
    using m st by (rule claim_update_rows_pos)
  have w: "ClaimNextTask no_claim_faults 500 four_tasks
     = (Inr (Some (mk_task 3 ''uploads/original/3.jpg'' Pending 210)),
        snd (claim_update 500 (task_ID (mk_task 3 ''uploads/original/3.jpg'' Pending 210))
          four_tasks))"
    using sel pos by (simp add: ClaimNextTask_no_faults claim_finish_no_faults)
  have ne: "snd (ClaimNextTask no_claim_faults 500 four_tasks) \<noteq> four_tasks"
    unfolding w snd_conv using m st by (rule claim_update_changes_store)
  note l = claim_finish_refused [OF ne, of 501 "mk_task 3 ''uploads/original/3.jpg'' Pending 210"]
  have f: "fst (ClaimNextTask no_claim_faults 500 four_tasks)
     = Inr (Some (mk_task 3 ''uploads/original/3.jpg'' Pending 210))"
    by (simp add: w)
  have n: "fst (claim_finish
       (claim_faults_after four_tasks (snd (ClaimNextTask no_claim_faults 500 four_tasks)))
       501 (mk_task 3 ''uploads/original/3.jpg'' Pending 210)
       (snd (ClaimNextTask no_claim_faults 500 four_tasks)))
     \<noteq> Inr None"
    by (simp add: l)
  from b f ne l n show ?thesis
    by (intro conjI)
qed

text \<open>
  Claim C1 as amended. When the backend executes every call and no other caller writes
  between the SELECT and the UPDATE, \<^verbatim>\<open>ClaimNextTask\<close> on a store without a pending task
  returns no task and no error and leaves the store as it was. On a store with a pending
  task it returns a pending task whose \<^verbatim>\<open>created_at\<close> is the smallest among the pending ones,
  and the store it commits differs from the one before only in that the pending row with
  that id is now \<^verbatim>\<open>processing\<close> (with \<^verbatim>\<open>updated_at\<close> stamped). A second caller that read the
  same row before the winner's commit and runs its UPDATE after it is refused by SQLite: it
  gets the error \<^verbatim>\<open>database is locked\<close>, no task, and leaves the store as the winner
  committed it. So exactly one of the two wins.
\<close>

theorem ClaimNextTask_oldest_pending_loser_refused:
  "claim_faults_after db db = no_claim_faults
   \<and> ((\<forall>t\<in>set (conversion_tasks db). Status t \<noteq> Pending) \<longrightarrow>
       ClaimNextTask no_claim_faults now db = (Inr None, db))
   \<and> ((\<exists>t\<in>set (conversion_tasks db). Status t = Pending) \<longrightarrow>
       (\<exists>task db'.
          ClaimNextTask no_claim_faults now db = (Inr (Some task), db')
          \<and> claim_begin no_claim_faults db = Inr (Some task)
          \<and> task \<in> set (conversion_tasks db) \<and> Status task = Pending
          \<and> (\<forall>u\<in>set (conversion_tasks db). Status u = Pending \<longrightarrow> CreatedAt task \<le> CreatedAt u)
          \<and> list_all2 (\<lambda>t t'. if task_ID t = task_ID task \<and> Status t = Pending
                               then t' = t\<lparr>Status := Processing, UpdatedAt := now\<rparr> else t' = t)
               (conversion_tasks db) (conversion_tasks db')
          \<and> pictures db' = pictures db
          \<and> db' \<noteq> db
          \<and> (\<forall>now'. claim_finish (claim_faults_after db db') now' task db'
                       = (Inl ''database is locked'', db'))))"
proof (intro conjI impI)
  show "claim_faults_after db db = no_claim_faults"
    by (rule claim_faults_after_same)
next
  assume "\<forall>t\<in>set (conversion_tasks db). Status t \<noteq> Pending"
  then have "claim_select db = None" by (simp add: claim_select_None)
  then show "ClaimNextTask no_claim_faults now db = (Inr None, db)"
    by (simp add: ClaimNextTask_no_faults)
next
  assume "\<exists>t\<in>set (conversion_tasks db). Status t = Pending"
  then have "claim_select db \<noteq> None" by (simp add: claim_select_None)
  then obtain task where sel: "claim_select db = Some task" by auto
  let ?db' = "snd (claim_update now (task_ID task) db)"
  note props = claim_select_Some [OF sel]
  from props have pos: "fst (claim_update now (task_ID task) db) \<noteq> 0"
    by (simp add: claim_update_rows_pos)
  have res: "ClaimNextTask no_claim_faults now db = (Inr (Some task), ?db')"
    using sel pos by (simp add: ClaimNextTask_no_faults claim_finish_no_faults)
  have beg: "claim_begin no_claim_faults db = Inr (Some task)"
    using sel by (simp add: claim_begin_def no_claim_faults_def)
  have rows: "list_all2 (\<lambda>t t'. if task_ID t = task_ID task \<and> Status t = Pending
                               then t' = t\<lparr>Status := Processing, UpdatedAt := now\<rparr> else t' = t)
               (conversion_tasks db) (conversion_tasks ?db')"
    by (simp add: claim_update_tables list_all2_map2 list_all2_same)
  have pics: "pictures ?db' = pictures db" by (simp add: claim_update_tables)
  from props have ne: "?db' \<noteq> db"
    by (intro claim_update_changes_store) simp_all
  have loser: "\<forall>now'. claim_finish (claim_faults_after db ?db') now' task ?db'
      = (Inl ''database is locked'', ?db')"
    using ne by (simp add: claim_finish_refused)
  from res beg props rows pics ne loser
  show "\<exists>task db'.
          ClaimNextTask no_claim_faults now db = (Inr (Some task), db')
          \<and> claim_begin no_claim_faults db = Inr (Some task)
          \<and> task \<in> set (conversion_tasks db) \<and> Status task = Pending
          \<and> (\<forall>u\<in>set (conversion_tasks db). Status u = Pending \<longrightarrow> CreatedAt task \<le> CreatedAt u)
          \<and> list_all2 (\<lambda>t t'. if task_ID t = task_ID task \<and> Status t = Pending
                               then t' = t\<lparr>Status := Processing, UpdatedAt := now\<rparr> else t' = t)
               (conversion_tasks db) (conversion_tasks db')
          \<and> pictures db' = pictures db
          \<and> db' \<noteq> db
          \<and> (\<forall>now'. claim_finish (claim_faults_after db db') now' task db'
                       = (Inl ''database is locked'', db'))"
    by blast
qed

theorem ClaimNextTask_oldest_pending_loser_refused_witness:
  "filter (\<lambda>t. Status t = Pending) (conversion_tasks no_pending_tasks) = []
   \<and> ClaimNextTask no_claim_faults 500 no_pending_tasks = (Inr None, no_pending_tasks)
   \<and> (\<exists>t\<in>set (conversion_tasks four_tasks). Status t = Pending)
   \<and> fst (ClaimNextTask no_claim_faults 500 four_tasks)
       = Inr (Some (mk_task 3 ''uploads/original/3.jpg'' Pending 210))
   \<and> (\<exists>task db'.
          ClaimNextTask no_claim_faults 500 four_tasks = (Inr (Some task), db')
          \<and> (\<forall>u\<in>set (conversion_tasks four_tasks). Status u = Pending \<longrightarrow> CreatedAt task \<le> CreatedAt u)
          \<and> (\<forall>now'. claim_finish (claim_faults_after four_tasks db') now' task db'
                       = (Inl ''database is locked'', db')))"
proof -
  have f: "filter (\<lambda>t. Status t = Pending) (conversion_tasks no_pending_tasks) = []"
    by (simp add: no_pending_tasks_def mk_task_def)
  then have n: "\<forall>t\<in>set (conversion_tasks no_pending_tasks). Status t \<noteq> Pending"
    by (simp add: filter_empty_conv)
  have p: "\<exists>t\<in>set (conversion_tasks four_tasks). Status t = Pending"
    by (simp add: four_tasks_def mk_task_def)
  have v: "fst (ClaimNextTask no_claim_faults 500 four_tasks)
       = Inr (Some (mk_task 3 ''uploads/original/3.jpg'' Pending 210))"
    by (simp add: ClaimNextTask_no_faults claim_finish_no_faults claim_select_def
          four_tasks_def mk_task_def claim_update_def)
  note none = ClaimNextTask_oldest_pending_loser_refused [of no_pending_tasks 500,
      THEN conjunct2, THEN conjunct1, THEN mp, OF n]
  note some = ClaimNextTask_oldest_pending_loser_refused [of four_tasks 500,
      THEN conjunct2, THEN conjunct2, THEN mp, OF p]
  from some have e: "\<exists>task db'.
          ClaimNextTask no_claim_faults 500 four_tasks = (Inr (Some task), db')
          \<and> (\<forall>u\<in>set (conversion_tasks four_tasks). Status u = Pending \<longrightarrow> CreatedAt task \<le> CreatedAt u)
          \<and> (\<forall>now'. claim_finish (claim_faults_after four_tasks db') now' task db'
                       = (Inl ''database is locked'', db'))"
    by blast
  from f none p v e show ?thesis
    by (intro conjI)
qed

section \<open>The life of a task\<close>

lemma tasks_advance_refl: "tasks_advance ts ts"
  by (simp add: tasks_advance_def list_all2_same)

lemma tasks_advance_trans:
  assumes "tasks_advance ts ts'" and "tasks_advance ts' ts''"
  shows "tasks_advance ts ts''"
proof -
  from assms have l: "length ts \<le> length ts'" "length ts' \<le> length ts''"
    by (simp_all add: tasks_advance_def)
  have "\<forall>k<length ts. task_ID (ts'' ! k) = task_ID (ts ! k)
          \<and> OriginalPath (ts'' ! k) = OriginalPath (ts ! k)
          \<and> status_rank (Status (ts ! k)) \<le> status_rank (Status (ts'' ! k))"
  proof (intro allI impI)
    fix k assume k: "k < length ts"
    from assms(1) k l have a: "task_ID (ts' ! k) = task_ID (ts ! k)
        \<and> OriginalPath (ts' ! k) = OriginalPath (ts ! k)
        \<and> status_rank (Status (ts ! k)) \<le> status_rank (Status (ts' ! k))"
      by (simp add: tasks_advance_def list_all2_conv_all_nth)
    from assms(2) k l have b: "task_ID (ts'' ! k) = task_ID (ts' ! k)
        \<and> OriginalPath (ts'' ! k) = OriginalPath (ts' ! k)
        \<and> status_rank (Status (ts' ! k)) \<le> status_rank (Status (ts'' ! k))"
      by (simp add: tasks_advance_def list_all2_conv_all_nth)
    from a b show "task_ID (ts'' ! k) = task_ID (ts ! k)
          \<and> OriginalPath (ts'' ! k) = OriginalPath (ts ! k)
          \<and> status_rank (Status (ts ! k)) \<le> status_rank (Status (ts'' ! k))"
      by simp
  qed
  with l show ?thesis
    by (simp add: tasks_advance_def list_all2_conv_all_nth)
qed

lemma tasks_advance_nth:
  "tasks_advance ts ts' \<Longrightarrow> k < length ts \<Longrightarrow>
     k < length ts' \<and> task_ID (ts' ! k) = task_ID (ts ! k)
     \<and> status_rank (Status (ts ! k)) \<le> status_rank (Status (ts' ! k))"
  by (simp add: tasks_advance_def list_all2_conv_all_nth)

lemma tasks_advance_row:
  assumes "tasks_advance ts ts'" and "row \<in> set ts"
  shows "\<exists>row'\<in>set ts'. task_ID row' = task_ID row
           \<and> status_rank (Status row) \<le> status_rank (Status row')"
proof -
  from assms(2) obtain k where k: "k < length ts" "ts ! k = row"
    by (auto simp: in_set_conv_nth)
  from tasks_advance_nth [OF assms(1) k(1)] k(2) show ?thesis
    by (metis nth_mem)
qed

lemma tasks_advance_map:
  assumes "\<And>t. task_ID (g t) = task_ID t \<and> OriginalPath (g t) = OriginalPath t
              \<and> status_rank (Status t) \<le> status_rank (Status (g t))"
  shows "tasks_advance ts (map g ts)"
  using assms by (simp add: tasks_advance_def list_all2_map2 list_all2_same)

lemma tasks_advance_append: "tasks_advance ts (ts @ us)"
  by (simp add: tasks_advance_def list_all2_same)

lemma Create_advance:
  "tasks_advance (conversion_tasks db)
     (conversion_tasks (snd (CreateConversionTask f now path name pic db)))"
  by (cases f) (simp_all add: CreateConversionTask_def tasks_advance_refl tasks_advance_append)

lemma claim_update_advance:
  "tasks_advance (conversion_tasks db) (conversion_tasks (snd (claim_update now i db)))"
  unfolding claim_update_def by (simp, rule tasks_advance_map) simp

lemma claim_finish_advance:
  "tasks_advance (conversion_tasks db) (conversion_tasks (snd (claim_finish cf now task db)))"
  by (simp add: claim_finish_def tasks_advance_refl claim_update_advance split: option.splits)

lemma status_rank_le_2: "status_rank s \<le> 2"
  by (cases s) simp_all

lemma MarkTaskCompleted_advance:
  "tasks_advance (conversion_tasks db) (conversion_tasks (snd (MarkTaskCompleted f now i db)))"
  unfolding MarkTaskCompleted_def
  by (cases f; simp add: tasks_advance_refl) (rule tasks_advance_map, simp add: status_rank_le_2)

lemma MarkTaskFailed_advance:
  "tasks_advance (conversion_tasks db) (conversion_tasks (snd (MarkTaskFailed f now i msg db)))"
  unfolding MarkTaskFailed_def
  by (cases f; simp add: tasks_advance_refl) (rule tasks_advance_map, simp add: status_rank_le_2)

lemma queue_step_advance:
  "tasks_advance (conversion_tasks (fst s)) (conversion_tasks (fst (fst (queue_step e s))))"
proof (cases s)
  case (Pair db loc)
  show ?thesis
  proof (cases e)
    case (Ev_Create f now path name pic)
    with Pair show ?thesis by (simp add: Create_advance)
  next
    case (Ev_ClaimBegin c cf)
    with Pair show ?thesis by (simp add: tasks_advance_refl split: sum.splits)
  next
    case (Ev_ClaimFinish c cf now)
    show ?thesis
    proof (cases "loc c")
      case None
      with Pair Ev_ClaimFinish show ?thesis by (simp add: tasks_advance_refl)
    next
      case (Some task)
      from claim_finish_advance [of db cf now task] Pair Ev_ClaimFinish Some
      show ?thesis by (auto split: prod.splits sum.splits)
    qed
  next
    case (Ev_MarkCompleted f now i)
    with Pair show ?thesis by (simp add: MarkTaskCompleted_advance)
  next
    case (Ev_MarkFailed f now i msg)
    with Pair show ?thesis by (simp add: MarkTaskFailed_advance)
  qed
qed

lemma queue_run_advance:
  "tasks_advance (conversion_tasks (fst s)) (conversion_tasks (fst (fst (queue_run es s))))"
proof (induction es arbitrary: s)
  case Nil
  show ?case by (simp add: tasks_advance_refl)
next
  case (Cons e es)
  from queue_step_advance [of s e] Cons.IH [of "fst (queue_step e s)"]
  show ?case
    by (auto split: prod.splits intro: tasks_advance_trans)
qed

lemma fold_max_ge: "(a::int) \<le> fold max xs a \<and> (\<forall>x\<in>set xs. x \<le> fold max xs a)"
proof (induction xs arbitrary: a)
  case Nil
  show ?case by simp
next
  case (Cons x xs)
  from Cons.IH [of "max x a"] show ?case by auto
qed

lemma next_task_id_fresh: "next_task_id db \<notin> set (map task_ID (conversion_tasks db))"
proof
  assume "next_task_id db \<in> set (map task_ID (conversion_tasks db))"
  with fold_max_ge [of "task_seq db" "map task_ID (conversion_tasks db)"]
  have "next_task_id db \<le> fold max (map task_ID (conversion_tasks db)) (task_seq db)"
    by blast
  then show False by (simp add: next_task_id_def)
qed

lemma map_task_ID_claim_update:
  "map task_ID (conversion_tasks (snd (claim_update now i db))) = map task_ID (conversion_tasks db)"
  by (simp add: claim_update_def o_def cong: if_cong)

lemma Create_ids:
  "distinct (map task_ID (conversion_tasks db)) \<Longrightarrow>
     distinct (map task_ID (conversion_tasks (snd (CreateConversionTask f now path name pic db))))"
  using next_task_id_fresh [of db] by (cases f) (simp_all add: CreateConversionTask_def)

lemma claim_finish_ids:
  "map task_ID (conversion_tasks (snd (claim_finish cf now task db))) = map task_ID (conversion_tasks db)"
  by (simp add: claim_finish_def map_task_ID_claim_update split: option.splits)

lemma MarkTaskCompleted_ids:
  "map task_ID (conversion_tasks (snd (MarkTaskCompleted f now i db))) = map task_ID (conversion_tasks db)"
  by (cases f) (auto simp: MarkTaskCompleted_def)

lemma MarkTaskFailed_ids:
  "map task_ID (conversion_tasks (snd (MarkTaskFailed f now i msg db))) = map task_ID (conversion_tasks db)"
  by (cases f) (auto simp: MarkTaskFailed_def)

lemma queue_step_ids:
  assumes "distinct (map task_ID (conversion_tasks (fst s)))"
  shows "distinct (map task_ID (conversion_tasks (fst (fst (queue_step e s)))))"
proof (cases s)
  case (Pair db loc)
  show ?thesis
  proof (cases e)
    case (Ev_Create f now path name pic)
    with Pair assms show ?thesis by (simp add: Create_ids)
  next
    case (Ev_ClaimBegin c cf)
    with Pair assms show ?thesis by (simp split: sum.splits)
  next
    case (Ev_ClaimFinish c cf now)
    show ?thesis
    proof (cases "loc c")
      case None
      with Pair Ev_ClaimFinish assms show ?thesis by simp
    next
      case (Some task)
      from claim_finish_ids [of cf now task db] Pair Ev_ClaimFinish Some assms
      show ?thesis by (auto split: prod.splits sum.splits)
    qed
  next
    case (Ev_MarkCompleted f now i)
    with Pair assms show ?thesis by (simp add: MarkTaskCompleted_ids)
  next
    case (Ev_MarkFailed f now i msg)
    with Pair assms show ?thesis by (simp add: MarkTaskFailed_ids)
  qed
qed

lemma claim_finish_win:
  assumes "claim_finish cf now task db = (Inr (Some t0), db')"
  shows "t0 = task
     \<and> (\<exists>row\<in>set (conversion_tasks db). task_ID row = task_ID t0 \<and> Status row = Pending)
     \<and> (\<forall>row'\<in>set (conversion_tasks db'). task_ID row' = task_ID t0 \<longrightarrow> Status row' \<noteq> Pending)
     \<and> db' = snd (claim_update now (task_ID task) db)"
proof -
  from assms have w: "fst (claim_update now (task_ID task) db) \<noteq> 0" and t: "t0 = task"
    and d: "db' = snd (claim_update now (task_ID task) db)"
    by (auto simp: claim_finish_def split: option.splits if_splits)
  from w have "filter (\<lambda>t. task_ID t = task_ID task \<and> Status t = Pending) (conversion_tasks db) \<noteq> []"
    by (simp add: claim_update_def)
  then have a: "\<exists>row\<in>set (conversion_tasks db). task_ID row = task_ID task \<and> Status row = Pending"
    by (auto simp: filter_empty_conv)
  have b: "\<forall>row'\<in>set (conversion_tasks db'). task_ID row' = task_ID task \<longrightarrow> Status row' \<noteq> Pending"
    unfolding d by (auto simp: claim_update_def)
  from a b t d show ?thesis by simp
qed

lemma queue_step_win:
  assumes "queue_step e (db, loc) = ((db', loc'), Some t0)"
  shows "(\<exists>row\<in>set (conversion_tasks db). task_ID row = task_ID t0 \<and> Status row = Pending)
     \<and> (\<forall>row'\<in>set (conversion_tasks db'). task_ID row' = task_ID t0 \<longrightarrow> Status row' \<noteq> Pending)"
proof (cases e)
  case (Ev_ClaimFinish c cf now)
  with assms obtain task where l: "loc c = Some task"
    by (cases "loc c") auto
  with assms Ev_ClaimFinish have "claim_finish cf now task db = (Inr (Some t0), db')"
    by (auto split: prod.splits sum.splits)
  from claim_finish_win [OF this] show ?thesis by blast
qed (use assms in \<open>auto split: sum.splits\<close>)

lemma distinct_map_eq:
  "distinct (map f xs) \<Longrightarrow> x \<in> set xs \<Longrightarrow> y \<in> set xs \<Longrightarrow> f x = f y \<Longrightarrow> x = y"
  by (meson distinct_map inj_onD)

lemma status_rank_Pending: "status_rank s = 0 \<longleftrightarrow> s = Pending"
  by (cases s) simp_all

lemma queue_run_wins:
  assumes "distinct (map task_ID (conversion_tasks db))"
  shows "distinct (map task_ID (snd (queue_run es (db, loc))))
     \<and> (\<forall>t\<in>set (snd (queue_run es (db, loc))). \<forall>row\<in>set (conversion_tasks db).
           task_ID row = task_ID t \<longrightarrow> Status row = Pending)"
  using assms
proof (induction es arbitrary: db loc)
  case Nil
  show ?case by simp
next
  case (Cons e es)
  obtain db' loc' r where step: "queue_step e (db, loc) = ((db', loc'), r)"
    by (metis prod.exhaust)
  obtain s'' rs where run: "queue_run es (db', loc') = (s'', rs)"
    by (metis prod.exhaust)
  from queue_step_ids [of "(db, loc)" e] Cons.prems step
  have d': "distinct (map task_ID (conversion_tasks db'))" by simp
  from Cons.IH [OF d', of loc'] run
  have ih: "distinct (map task_ID rs)"
    "\<forall>t\<in>set rs. \<forall>row\<in>set (conversion_tasks db'). task_ID row = task_ID t \<longrightarrow> Status row = Pending"
    by simp_all
  from queue_step_advance [of "(db, loc)" e] step
  have adv: "tasks_advance (conversion_tasks db) (conversion_tasks db')" by simp
  have older: "\<forall>t\<in>set rs. \<forall>row\<in>set (conversion_tasks db). task_ID row = task_ID t \<longrightarrow> Status row = Pending"
  proof (intro ballI impI)
    fix t row assume t: "t \<in> set rs" and row: "row \<in> set (conversion_tasks db)"
      and i: "task_ID row = task_ID t"
    from tasks_advance_row [OF adv row] obtain row' where
      r': "row' \<in> set (conversion_tasks db')" "task_ID row' = task_ID row"
          "status_rank (Status row) \<le> status_rank (Status row')"
      by blast
    from ih(2) t r' i have "Status row' = Pending" by simp
    with r'(3) show "Status row = Pending" by (simp add: status_rank_Pending)
  qed
  show ?case
  proof (cases r)
    case None
    with step run ih(1) older show ?thesis by simp
  next
    case (Some t0)
    from queue_step_win [OF step [unfolded Some]] obtain row0 where
      w: "row0 \<in> set (conversion_tasks db)" "task_ID row0 = task_ID t0" "Status row0 = Pending"
      and w': "\<forall>row'\<in>set (conversion_tasks db'). task_ID row' = task_ID t0 \<longrightarrow> Status row' \<noteq> Pending"
      by blast
    from tasks_advance_row [OF adv w(1)] obtain row1 where
      r1: "row1 \<in> set (conversion_tasks db')" "task_ID row1 = task_ID row0"
      by blast
    have fresh: "task_ID t0 \<notin> task_ID ` set rs"
    proof
      assume "task_ID t0 \<in> task_ID ` set rs"
      then obtain t where "t \<in> set rs" "task_ID t = task_ID t0" by auto
      with ih(2) r1 w(2) have "Status row1 = Pending" by simp
      with w' r1 w(2) show False by simp
    qed
    have own: "\<forall>row\<in>set (conversion_tasks db). task_ID row = task_ID t0 \<longrightarrow> Status row = Pending"
    proof (intro ballI impI)
      fix row assume "row \<in> set (conversion_tasks db)" "task_ID row = task_ID t0"
      with w Cons.prems have "row = row0"
        by (metis distinct_map_eq)
      with w(3) show "Status row = Pending" by simp
    qed
    from step run Some ih(1) fresh older own show ?thesis by simp
  qed
qed

lemma ClaimNextTask_as_events:
  "queue_run [Ev_ClaimBegin c cf, Ev_ClaimFinish c cf now] (db, loc) =
     ((snd (ClaimNextTask cf now db), loc(c := None)),
      (case fst (ClaimNextTask cf now db) of Inr (Some t) \<Rightarrow> [t] | _ \<Rightarrow> []))"
  by (auto simp: ClaimNextTask_def split: sum.splits option.splits prod.splits)

text \<open>
  Claim C5. Under every sequence of statement-level steps of any number of callers
  (creating, the two halves of claiming, marking completed, marking failed, each with or
  without a backend fault), every row of the task table keeps its id and its status never
  moves to an earlier position in \<open>pending < processing < {completed, failed}\<close>; in
  particular a row that is pending at the end was pending at the start, so nothing returns to
  pending. A step hands a task to its caller only if a row with that id is pending in the
  state in which the step runs, and that row is not pending afterwards. When ids are distinct
  (the primary key), the tasks handed out during a run have distinct ids: no task is
  handed out twice, however the callers' statements interleave.

  The two marking statements do not look at the current status: they can take a pending
  row straight to a terminal status, and replace one terminal status by the other.
\<close>

theorem queue_status_monotone:
  assumes "distinct (map task_ID (conversion_tasks db))"
  shows "tasks_advance (conversion_tasks db) (conversion_tasks (fst (fst (queue_run es (db, loc)))))
    \<and> (\<forall>k<length (conversion_tasks db).
          Status (conversion_tasks (fst (fst (queue_run es (db, loc)))) ! k) = Pending
          \<longrightarrow> Status (conversion_tasks db ! k) = Pending)
    \<and> (\<forall>e d l d' l' t. queue_step e (d, l) = ((d', l'), Some t) \<longrightarrow>
          (\<exists>row\<in>set (conversion_tasks d). task_ID row = task_ID t \<and> Status row = Pending)
          \<and> (\<forall>row'\<in>set (conversion_tasks d'). task_ID row' = task_ID t \<longrightarrow> Status row' \<noteq> Pending))
    \<and> distinct (map task_ID (snd (queue_run es (db, loc))))"
proof -
  let ?ts' = "conversion_tasks (fst (fst (queue_run es (db, loc))))"
  from queue_run_advance [of "(db, loc)" es]
  have adv: "tasks_advance (conversion_tasks db) ?ts'" by simp
  have pend: "\<forall>k<length (conversion_tasks db).
      Status (?ts' ! k) = Pending \<longrightarrow> Status (conversion_tasks db ! k) = Pending"
  proof (intro allI impI)
    fix k assume "k < length (conversion_tasks db)" and p: "Status (?ts' ! k) = Pending"
    from tasks_advance_nth [OF adv this(1)] p
    show "Status (conversion_tasks db ! k) = Pending"
      by (simp add: status_rank_Pending)
  qed
  have win: "\<forall>e d l d' l' t. queue_step e (d, l) = ((d', l'), Some t) \<longrightarrow>
          (\<exists>row\<in>set (conversion_tasks d). task_ID row = task_ID t \<and> Status row = Pending)
          \<and> (\<forall>row'\<in>set (conversion_tasks d'). task_ID row' = task_ID t \<longrightarrow> Status row' \<noteq> Pending)"
    using queue_step_win by blast
  from queue_run_wins [OF assms, of es loc]
  have once: "distinct (map task_ID (snd (queue_run es (db, loc))))" by simp
  from adv pend win once show ?thesis by blast
qed

lemma race_events_run:
  "map task_ID (snd (queue_run race_events (four_tasks, \<lambda>_. None))) = [3, 4]
   \<and> map Status (conversion_tasks (fst (fst (queue_run race_events (four_tasks, \<lambda>_. None)))))
       = [Completed, Completed, Completed, Failed]"
  by (simp add: race_events_def four_tasks_def mk_task_def no_claim_faults_def claim_begin_def
        claim_finish_def claim_select_def claim_update_def MarkTaskCompleted_def
        MarkTaskFailed_def CreateConversionTask_def)

theorem queue_status_monotone_witness:
  "distinct (map task_ID (conversion_tasks four_tasks))
   \<and> map task_ID (snd (queue_run race_events (four_tasks, \<lambda>_. None))) = [3, 4]
   \<and> map Status (conversion_tasks (fst (fst (queue_run race_events (four_tasks, \<lambda>_. None)))))
       = [Completed, Completed, Completed, Failed]
   \<and> tasks_advance (conversion_tasks four_tasks)
        (conversion_tasks (fst (fst (queue_run race_events (four_tasks, \<lambda>_. None)))))
   \<and> distinct (map task_ID (snd (queue_run race_events (four_tasks, \<lambda>_. None))))"
proof -
  have d: "distinct (map task_ID (conversion_tasks four_tasks))"
    by (simp add: four_tasks_def mk_task_def)
  from queue_status_monotone [OF d, of race_events "\<lambda>_. None"] race_events_run d
  show ?thesis by blast
qed

section \<open>Broadcasting\<close>

lemma broadcast_loop_eq:
  "broadcast_loop write m cs h =
     h\<lparr>clients := filter (\<lambda>c. \<not> (c \<in> set cs \<and> write c m \<noteq> None)) (clients h),
       wire := wire h @ map (\<lambda>c. (c, m, write c m = None)) cs,
       closed := closed h @ filter (\<lambda>c. write c m \<noteq> None) cs\<rparr>"
proof (induction cs arbitrary: h)
  case Nil
  show ?case by simp
next
  case (Cons c cs)
  show ?case
  proof (cases "write c m")
    case None
    have "filter (\<lambda>x. \<not> (x \<in> set cs \<and> write x m \<noteq> None)) (clients h)
        = filter (\<lambda>x. \<not> ((x = c \<or> x \<in> set cs) \<and> write x m \<noteq> None)) (clients h)"
      using None by (intro filter_cong) auto
    with None show ?thesis by (simp add: Cons.IH)
  next
    case (Some e)
    have "filter (\<lambda>x. \<not> (x \<in> set cs \<and> write x m \<noteq> None)) (removeAll c (clients h))
        = filter (\<lambda>x. \<not> ((x = c \<or> x \<in> set cs) \<and> write x m \<noteq> None)) (clients h)"
      using Some by (auto simp: removeAll_filter_not_eq intro!: filter_cong)
    with Some show ?thesis by (simp add: Cons.IH)
  qed
qed

lemma Broadcast_eq:
  "hub_step write (Broadcast m) h =
     h\<lparr>clients := filter (\<lambda>c. write c m = None) (clients h),
       wire := wire h @ map (\<lambda>c. (c, m, write c m = None)) (clients h),
       closed := closed h @ filter (\<lambda>c. write c m \<noteq> None) (clients h)\<rparr>"
proof -
  have "filter (\<lambda>c. \<not> (c \<in> set (clients h) \<and> write c m \<noteq> None)) (clients h)
      = filter (\<lambda>c. write c m = None) (clients h)"
    by (intro filter_cong) auto
  then show ?thesis by (simp add: broadcast_loop_eq)
qed

lemma hub_step_not_client:
  assumes "c \<notin> set (clients h)" and "msg \<noteq> Register c"
  shows "c \<notin> set (clients (hub_step write msg h)) \<and> written_to c (hub_step write msg h) = written_to c h"
proof (cases msg)
  case (Register c')
  with assms show ?thesis by (auto simp: written_to_def)
next
  case (Unregister c')
  with assms show ?thesis by (auto simp: written_to_def)
next
  case (Broadcast m)
  have "filter (\<lambda>w. fst w = c) (map (\<lambda>c. (c, m, write c m = None)) (clients h)) = []"
    using assms(1) by (auto simp: filter_empty_conv)
  with assms(1) Broadcast show ?thesis
    by (simp add: Broadcast_eq written_to_def del: hub_step.simps)
qed

lemma hub_run_not_client:
  assumes "c \<notin> set (clients h)" and "\<forall>(w, msg)\<in>set ms. msg \<noteq> Register c"
  shows "c \<notin> set (clients (hub_run ms h)) \<and> written_to c (hub_run ms h) = written_to c h"
  using assms
proof (induction ms arbitrary: h)
  case Nil
  then show ?case by simp
next
  case (Cons a ms)
  obtain w msg where a: "a = (w, msg)" by (cases a)
  with Cons.prems have n: "msg \<noteq> Register c" by simp
  from hub_step_not_client [OF Cons.prems(1) n, of w]
  have s: "c \<notin> set (clients (hub_step w msg h))"
      "written_to c (hub_step w msg h) = written_to c h" by simp_all
  from Cons.IH [OF s(1)] Cons.prems(2) s(2) a show ?case by simp
qed

text \<open>
  Claim C7. In the broadcast case the hub calls \<^verbatim>\<open>WriteMessage\<close> once for every connection of
  the active set, in the order of the iteration. Afterwards the set holds exactly the
  connections whose write succeeded. A connection whose write failed is out of the set and
  has been closed, and as long as it is not registered again nothing more is written to it,
  whatever messages the hub handles next. A connection whose write succeeded is still in the
  set, the payload was written to it, and this broadcast did not close it.
\<close>

theorem Broadcast_prunes_failed:
  "map fst (drop (length (wire h)) (wire (hub_step write (Broadcast m) h))) = clients h
   \<and> clients (hub_step write (Broadcast m) h) = filter (\<lambda>c. write c m = None) (clients h)
   \<and> (\<forall>c\<in>set (clients h). write c m \<noteq> None \<longrightarrow>
        c \<notin> set (clients (hub_step write (Broadcast m) h))
        \<and> c \<in> set (closed (hub_step write (Broadcast m) h))
        \<and> ((\<forall>(w, msg)\<in>set ms. msg \<noteq> Register c) \<longrightarrow>
             written_to c (hub_run ms (hub_step write (Broadcast m) h))
               = written_to c (hub_step write (Broadcast m) h)))
   \<and> (\<forall>c\<in>set (clients h). write c m = None \<longrightarrow>
        c \<in> set (clients (hub_step write (Broadcast m) h))
        \<and> (c, m, True) \<in> set (wire (hub_step write (Broadcast m) h))
        \<and> (c \<in> set (closed (hub_step write (Broadcast m) h)) \<longrightarrow> c \<in> set (closed h)))"
proof (intro conjI ballI impI)
  show "map fst (drop (length (wire h)) (wire (hub_step write (Broadcast m) h))) = clients h"
    by (simp add: Broadcast_eq o_def del: hub_step.simps)
  show "clients (hub_step write (Broadcast m) h) = filter (\<lambda>c. write c m = None) (clients h)"
    by (simp add: Broadcast_eq del: hub_step.simps)
next
  fix c assume c: "c \<in> set (clients h)" and f: "write c m \<noteq> None"
  show n: "c \<notin> set (clients (hub_step write (Broadcast m) h))"
    using f by (simp add: Broadcast_eq del: hub_step.simps)
  show "c \<in> set (closed (hub_step write (Broadcast m) h))"
    using c f by (simp add: Broadcast_eq del: hub_step.simps)
  assume "\<forall>(w, msg)\<in>set ms. msg \<noteq> Register c"
  from hub_run_not_client [OF n this]
  show "written_to c (hub_run ms (hub_step write (Broadcast m) h))
               = written_to c (hub_step write (Broadcast m) h)"
    by simp
next
  fix c assume c: "c \<in> set (clients h)" and f: "write c m = None"
  show "c \<in> set (clients (hub_step write (Broadcast m) h))"
    using c f by (simp add: Broadcast_eq del: hub_step.simps)
  show "(c, m, True) \<in> set (wire (hub_step write (Broadcast m) h))"
    using c f by (force simp: Broadcast_eq simp del: hub_step.simps)
  assume "c \<in> set (closed (hub_step write (Broadcast m) h))"
  then show "c \<in> set (closed h)"
    using f by (simp add: Broadcast_eq del: hub_step.simps)
qed

lemma three_clients_run:
  "hub_run [(peer_8_gone, Broadcast ''s1''), (all_peers_up, Broadcast ''s2'')] three_clients
     = \<lparr>clients = [7, 9],
        wire = [(7, ''s1'', True), (8, ''s1'', False), (9, ''s1'', True),
                (7, ''s2'', True), (9, ''s2'', True)],
        closed = [8]\<rparr>"
  by (simp add: three_clients_def peer_8_gone_def all_peers_up_def)

theorem Broadcast_prunes_failed_witness:
  "8 \<in> set (clients three_clients) \<and> peer_8_gone 8 ''s1'' \<noteq> None
   \<and> 7 \<in> set (clients three_clients) \<and> peer_8_gone 7 ''s1'' = None
   \<and> clients (hub_step peer_8_gone (Broadcast ''s1'') three_clients) = [7, 9]
   \<and> 8 \<in> set (closed (hub_step peer_8_gone (Broadcast ''s1'') three_clients))
   \<and> written_to 8 (hub_run [(all_peers_up, Broadcast ''s2'')]
         (hub_step peer_8_gone (Broadcast ''s1'') three_clients))
       = written_to 8 (hub_step peer_8_gone (Broadcast ''s1'') three_clients)
   \<and> written_to 8 (hub_step peer_8_gone (Broadcast ''s1'') three_clients) = [(''s1'', False)]
   \<and> (7, ''s1'', True) \<in> set (wire (hub_step peer_8_gone (Broadcast ''s1'') three_clients))"
proof -
  have h: "8 \<in> set (clients three_clients)" "7 \<in> set (clients three_clients)"
    by (simp_all add: three_clients_def)
  have p: "peer_8_gone 8 ''s1'' \<noteq> None" "peer_8_gone 7 ''s1'' = None"
    by (simp_all add: peer_8_gone_def)
  have r: "\<forall>(w, msg)\<in>set [(all_peers_up, Broadcast ''s2'')]. msg \<noteq> Register 8"
    by simp
  have v: "clients (hub_step peer_8_gone (Broadcast ''s1'') three_clients) = [7, 9]"
    "written_to 8 (hub_step peer_8_gone (Broadcast ''s1'') three_clients) = [(''s1'', False)]"
    by (simp_all add: three_clients_def peer_8_gone_def written_to_def)
  from Broadcast_prunes_failed [of three_clients peer_8_gone "''s1''" "[(all_peers_up, Broadcast ''s2'')]"]
    h p r v
  show ?thesis by blast
qed

section \<open>The ranked listing\<close>

lemma scan_rows_eq:
  "\<forall>r\<in>set rs. row_likes r \<le> max_int64 \<Longrightarrow>
     scan_rows lib rs = Inr (map (picture_of lib) (filter (parses lib) rs))"
  by (induction rs) (auto simp: scan_picture_def picture_of_def parses_def split: option.splits)

lemma two_uploads_rows:
  "pictures two_uploads =
     [\<lparr>row_id = ''1730611800000000000.webp'', row_filename = ''first.png'',
       row_url = ''/uploads/1730611800000000000.webp'', row_likes = 0,
       row_uploaded_at = ''2024-11-03T01:30:00-04:00''\<rparr>,
      \<lparr>row_id = ''1730614200000000000.webp'', row_filename = ''second.png'',
       row_url = ''/uploads/1730614200000000000.webp'', row_likes = 0,
       row_uploaded_at = ''2024-11-03T01:10:00-05:00''\<rparr>]"
  by code_simp

lemma scan_0130:
  "scan_picture go_scan_lib
     \<lparr>row_id = ''1730611800000000000.webp'', row_filename = ''first.png'',
      row_url = ''/uploads/1730611800000000000.webp'', row_likes = 0,
      row_uploaded_at = ''2024-11-03T01:30:00-04:00''\<rparr>
   = Inr (Some upload_0130_edt)"
  by code_simp

lemma scan_0110:
  "scan_picture go_scan_lib
     \<lparr>row_id = ''1730614200000000000.webp'', row_filename = ''second.png'',
      row_url = ''/uploads/1730614200000000000.webp'', row_likes = 0,
      row_uploaded_at = ''2024-11-03T01:10:00-05:00''\<rparr>
   = Inr (Some upload_0110_est)"
  by code_simp

text \<open>
  Claim C4, at an input where it fails. Two pictures are inserted with \<^verbatim>\<open>AddPicture\<close>, the
  first uploaded at 01:30 in a location four hours west of UTC, the second forty minutes
  later in the same place, after the clocks went back, at 01:10 five hours west of UTC. Both
  have no likes. The ranked listing returns the first upload before the second, although
  the second is the newer one: \<^verbatim>\<open>ORDER BY likes DESC, uploaded_at DESC\<close> compares the stored
  RFC 3339 texts, and \<^verbatim>\<open>2024-11-03T01:30:00-04:00\<close> is the larger text.
\<close>

theorem ranked_list_older_first_across_offsets:
  "GetAllPicturesSortedByLikes None go_scan_lib two_uploads
     = Inr [upload_0130_edt, upload_0110_est]
   \<and> Likes upload_0130_edt = Likes upload_0110_est
   \<and> time_Before (UploadedAt upload_0130_edt) (UploadedAt upload_0110_est)
   \<and> \<not> sorted_wrt (ranked_before time_Before) [upload_0130_edt, upload_0110_est]"
proof -
  have "order_by_likes_desc_uploaded_at_desc (pictures two_uploads) = pictures two_uploads"
    by (simp add: two_uploads_rows order_by_likes_desc_uploaded_at_desc_def)
  then have "GetAllPicturesSortedByLikes None go_scan_lib two_uploads
     = Inr [upload_0130_edt, upload_0110_est]"
    by (simp add: GetAllPicturesSortedByLikes_def two_uploads_rows scan_0130 scan_0110)
  moreover have "Likes upload_0130_edt = Likes upload_0110_est"
    by (simp add: upload_0130_edt_def upload_0110_est_def)
  moreover have b: "time_Before (UploadedAt upload_0130_edt) (UploadedAt upload_0110_est)"
    by (simp add: upload_0130_edt_def upload_0110_est_def time_Before_def)
  moreover have "\<not> sorted_wrt (ranked_before time_Before) [upload_0130_edt, upload_0110_est]"
    using b by (simp add: ranked_before_def upload_0130_edt_def upload_0110_est_def)
  ultimately show ?thesis by blast
qed

lemma order_by_likes_desc_sorted:
  "sorted_wrt (\<lambda>r1 r2. row_likes r2 < row_likes r1
        \<or> (row_likes r2 = row_likes r1 \<and> row_uploaded_at r2 \<le> row_uploaded_at r1))
     (order_by_likes_desc_uploaded_at_desc rs)"
proof -
  let ?key = "\<lambda>r. (row_likes r, row_uploaded_at r)"
  have "sorted (map ?key (sort_key ?key rs))" by (rule sorted_sort_key)
  then have "sorted_wrt (\<lambda>r1 r2. ?key r1 \<le> ?key r2) (sort_key ?key rs)"
    by (simp add: sorted_map)
  then have "sorted_wrt (\<lambda>r1 r2. ?key r2 \<le> ?key r1) (rev (sort_key ?key rs))"
    by (simp add: sorted_wrt_rev)
  then show ?thesis
    unfolding order_by_likes_desc_uploaded_at_desc_def
    by (rule sorted_wrt_mono_rel [rotated]) (auto simp: less_eq_prod_def)
qed

lemma set_order_by_likes_desc [simp]:
  "set (order_by_likes_desc_uploaded_at_desc rs) = set rs"
  by (simp add: order_by_likes_desc_uploaded_at_desc_def)

text \<open>
  Where the ranked listing is sorted as intended: whenever the stored texts of any two rows
  compare in the order of the times they denote, as they do when all of them were written
  with the same offset from UTC, the listing is sorted by likes descending and then by time
  of upload descending.
\<close>

lemma ranked_sorted_when_texts_order_like_times:
  assumes "\<forall>r\<in>set (pictures db). row_likes r \<le> max_int64"
    and "\<forall>r1\<in>set (pictures db). \<forall>r2\<in>set (pictures db). \<forall>t1 t2.
             Parse_RFC3339 lib (uploadedAtStr lib r1) = Some t1 \<longrightarrow>
             Parse_RFC3339 lib (uploadedAtStr lib r2) = Some t2 \<longrightarrow>
             row_uploaded_at r2 \<le> row_uploaded_at r1 \<longrightarrow> \<not> before t1 t2"
  shows "\<exists>ps. GetAllPicturesSortedByLikes None lib db = Inr ps
              \<and> sorted_wrt (ranked_before before) ps"
proof -
  let ?rs = "order_by_likes_desc_uploaded_at_desc (pictures db)"
  let ?R = "\<lambda>r1 r2. row_likes r2 < row_likes r1
        \<or> (row_likes r2 = row_likes r1 \<and> row_uploaded_at r2 \<le> row_uploaded_at r1)"
  have "sorted_wrt ?R (filter (parses lib) ?rs)"
    using order_by_likes_desc_sorted by (rule sorted_wrt_filter)
  then have "sorted_wrt (\<lambda>r1 r2. ranked_before before (picture_of lib r1) (picture_of lib r2))
       (filter (parses lib) ?rs)"
  proof (rule sorted_wrt_mono_rel [rotated])
    fix r1 r2
    assume "r1 \<in> set (filter (parses lib) ?rs)" "r2 \<in> set (filter (parses lib) ?rs)"
      and R: "?R r1 r2"
    then have m: "r1 \<in> set (pictures db)" "r2 \<in> set (pictures db)"
      and p: "Parse_RFC3339 lib (uploadedAtStr lib r1) \<noteq> None"
             "Parse_RFC3339 lib (uploadedAtStr lib r2) \<noteq> None"
      by (simp_all add: parses_def)
    from p obtain t1 t2 where t: "Parse_RFC3339 lib (uploadedAtStr lib r1) = Some t1"
        "Parse_RFC3339 lib (uploadedAtStr lib r2) = Some t2" by auto
    from assms(2) m t have "row_uploaded_at r2 \<le> row_uploaded_at r1 \<longrightarrow> \<not> before t1 t2"
      by blast
    with R t show "ranked_before before (picture_of lib r1) (picture_of lib r2)"
      by (auto simp: ranked_before_def picture_of_def)
  qed
  then have "sorted_wrt (ranked_before before) (map (picture_of lib) (filter (parses lib) ?rs))"
    by (simp add: sorted_wrt_map)
  moreover have "\<forall>r\<in>set ?rs. row_likes r \<le> max_int64"
    using assms(1) by simp
  ultimately show ?thesis
    by (simp add: GetAllPicturesSortedByLikes_def scan_rows_eq)
qed

lemma set_order_by_uploaded_at_desc [simp]:
  "set (order_by_uploaded_at_desc rs) = set rs"
  by (simp add: order_by_uploaded_at_desc_def)


lemma sql_limit_all: "n < 0 \<or> int (length rs) \<le> n \<Longrightarrow> sql_limit n rs = rs"
  by (auto simp: sql_limit_def)

lemma ID_picture_of [simp]: "ID (picture_of lib r) = row_id r"
  by (simp add: picture_of_def)


section \<open>Rows whose stored time is not RFC 3339\<close>

text \<open>
  What \<^verbatim>\<open>rows.Scan\<close> delivers for the two rows of \<open>one_foreign_time\<close> whose stored text is
  not RFC 3339: the driver reads SQLite's own spelling as a time in UTC and replaces a text
  in none of its layouts by the zero time, and \<^verbatim>\<open>Scan\<close> renders either as RFC 3339.
\<close>

lemma foreign_rows_scanned:
  "uploadedAtStr go_scan_lib foreign_row = ''2024-05-02T10:00:00Z''
   \<and> uploadedAtStr go_scan_lib timeless_row = ''0001-01-01T00:00:00Z''"
  by code_simp




section \<open>Converting an image\<close>

lemma int_div_less:
  assumes "0 < (b::int)" "a < c * b"
  shows "a div b < c"
proof (rule ccontr)
  assume "\<not> a div b < c"
  then have "c \<le> a div b" by simp
  then have "c * b \<le> (a div b) * b" using assms(1) by (simp add: mult_right_mono)
  also have "\<dots> \<le> a"
  proof -
    have "a = (a div b) * b + a mod b" by simp
    moreover have "0 \<le> a mod b" using assms(1) by simp
    ultimately show ?thesis by linarith
  qed
  finally show False using assms(2) by simp
qed

lemma int_div_ge:
  assumes "0 < (b::int)" "c * b \<le> a"
  shows "c \<le> a div b"
  using assms zdiv_mono1 by fastforce

lemma half_up_small:
  assumes "0 < (w::int)" "0 \<le> a" "a < w"
  shows "max 1 ((2 * a + w) div (2 * w)) = 1"
proof -
  from assms have "2 * a + w < 2 * (2 * w)" by simp
  then have "(2 * a + w) div (2 * w) < 2"
    using assms(1) by (intro int_div_less) simp_all
  then show ?thesis by simp
qed

lemma imaging_Fit_landscape:
  assumes "0 < Dy img" "Dy img \<le> Dx img" "m < Dx img" "0 < m"
  shows "Dx (imaging_Fit f img m m) = m
       \<and> Dy (imaging_Fit f img m m) = max 1 ((m * Dy img) div Dx img)"
proof (cases "Dx img = Dy img")
  case True
  with assms show ?thesis
    by (simp add: imaging_Fit_def imaging_Resize_def Let_def)
next
  case False
  with assms have lt: "Dy img < Dx img" by simp
  let ?h = "(m * Dy img) div Dx img"
  have h0: "0 \<le> ?h" using assms by (simp add: pos_imp_zdiv_nonneg_iff)
  have hm: "?h < m"
  proof -
    have "m * Dy img < m * Dx img" using lt assms(4) by simp
    then show ?thesis using assms by (intro int_div_less) simp_all
  qed
  show ?thesis
  proof (cases "?h = 0")
    case True
    have "m * Dy img < Dx img"
    proof (rule ccontr)
      assume "\<not> m * Dy img < Dx img"
      then have "1 * Dx img \<le> m * Dy img" by simp
      then have "1 \<le> ?h" using assms by (intro int_div_ge) simp_all
      with True show False by simp
    qed
    then have "max 1 ((2 * (m * Dy img) + Dx img) div (2 * Dx img)) = 1"
      using assms by (intro half_up_small) auto
    with True assms lt show ?thesis
      by (simp add: imaging_Fit_def imaging_Resize_def Let_def)
  next
    case False
    with h0 have "1 \<le> ?h" by simp
    with False assms lt hm show ?thesis
      by (auto simp: imaging_Fit_def imaging_Resize_def Let_def max_def)
  qed
qed

lemma imaging_Fit_portrait:
  assumes "0 < Dx img" "Dx img < Dy img" "m < Dy img" "0 < m"
  shows "Dy (imaging_Fit f img m m) = m
       \<and> Dx (imaging_Fit f img m m) = max 1 ((m * Dx img) div Dy img)"
proof -
  let ?w = "(m * Dx img) div Dy img"
  have w0: "0 \<le> ?w" using assms by (simp add: pos_imp_zdiv_nonneg_iff)
  have wm: "?w < m"
  proof -
    have "m * Dx img < m * Dy img" using assms by simp
    then show ?thesis using assms by (intro int_div_less) simp_all
  qed
  have nl: "\<not> Dx img * m > m * Dy img"
  proof -
    have "m * Dx img < m * Dy img" using assms by simp
    then show ?thesis by (simp add: mult.commute)
  qed
  show ?thesis
  proof (cases "?w = 0")
    case True
    have "m * Dx img < Dy img"
    proof (rule ccontr)
      assume "\<not> m * Dx img < Dy img"
      then have "1 * Dy img \<le> m * Dx img" by simp
      then have "1 \<le> ?w" using assms by (intro int_div_ge) simp_all
      with True show False by simp
    qed
    then have "max 1 ((2 * (m * Dx img) + Dy img) div (2 * Dy img)) = 1"
      using assms by (intro half_up_small) auto
    with True assms nl show ?thesis
      by (simp add: imaging_Fit_def imaging_Resize_def Let_def)
  next
    case False
    with w0 have "1 \<le> ?w" by simp
    with False assms wm nl show ?thesis
      by (auto simp: imaging_Fit_def imaging_Resize_def Let_def max_def)
  qed
qed

lemma fit_to_max_within:
  "Dx img \<le> 1600 \<Longrightarrow> Dy img \<le> 1600 \<Longrightarrow> fit_to_max f img = img"
  by (simp add: fit_to_max_def maxImageDimension_def Let_def)

lemma fit_to_max_exceeds:
  assumes "0 < Dx img" "0 < Dy img" "1600 < Dx img \<or> 1600 < Dy img"
  shows "(Dy img \<le> Dx img \<longrightarrow>
            Dx (fit_to_max f img) = 1600
            \<and> Dy (fit_to_max f img) = max 1 ((1600 * Dy img) div Dx img))
       \<and> (Dx img < Dy img \<longrightarrow>
            Dy (fit_to_max f img) = 1600
            \<and> Dx (fit_to_max f img) = max 1 ((1600 * Dx img) div Dy img))"
proof (intro conjI impI)
  assume l: "Dy img \<le> Dx img"
  with assms have "1600 < Dx img" by auto
  from imaging_Fit_landscape [OF assms(2) l this, of f] assms(3)
  show "Dx (fit_to_max f img) = 1600"
    and "Dy (fit_to_max f img) = max 1 ((1600 * Dy img) div Dx img)"
    by (simp_all add: fit_to_max_def maxImageDimension_def Let_def)
next
  assume p: "Dx img < Dy img"
  with assms have "1600 < Dy img" by auto
  from imaging_Fit_portrait [OF assms(1) p this, of f] assms(3)
  show "Dy (fit_to_max f img) = 1600"
    and "Dx (fit_to_max f img) = max 1 ((1600 * Dx img) div Dy img)"
    by (simp_all add: fit_to_max_def maxImageDimension_def Let_def)
qed

lemma short_side_bounds:
  assumes "0 < (s::int)" "s \<le> l" "1600 < l"
  shows "max 1 ((1600 * s) div l) \<le> 1600 \<and> 1 \<le> max 1 ((1600 * s) div l)"
proof -
  have "1600 * s \<le> 1600 * l" using assms by simp
  then have "(1600 * s) div l \<le> 1600"
    using assms by (metis int_div_less not_le less_le_trans order_less_imp_le zdiv_mono1 nonzero_mult_div_cancel_right less_irrefl zero_less_numeral order.strict_trans)
  then show ?thesis by simp
qed

text \<open>
  Claim C9. For data that decodes to an image with positive bounds, \<^verbatim>\<open>convertToWebP\<close> returns
  what the encoder returns for quality 82 on the image that the size check yields. If both
  sides are at most 1600 that image is the decoded image itself. If a side exceeds 1600 it
  is a different image whose longer side is exactly 1600, on the same axis as the longer
  side of the source, and whose other side is the proportional length rounded down, at least
  one pixel. (The library computes the proportional length in \<^verbatim>\<open>float64\<close>, the model
  exactly.)
\<close>

theorem convertToWebP_fits_and_encodes:
  assumes "Decode env data = Inr img" and "0 < Dx img" and "0 < Dy img"
  shows "convertToWebP env data = Encode env (fit_to_max (Lanczos env) img) 82
    \<and> (Dx img \<le> 1600 \<and> Dy img \<le> 1600 \<longrightarrow> fit_to_max (Lanczos env) img = img)
    \<and> (1600 < Dx img \<or> 1600 < Dy img \<longrightarrow>
          fit_to_max (Lanczos env) img \<noteq> img
          \<and> max (Dx (fit_to_max (Lanczos env) img)) (Dy (fit_to_max (Lanczos env) img)) = 1600
          \<and> (Dy img \<le> Dx img \<longrightarrow>
                Dx (fit_to_max (Lanczos env) img) = 1600
                \<and> Dy (fit_to_max (Lanczos env) img) = max 1 ((1600 * Dy img) div Dx img))
          \<and> (Dx img < Dy img \<longrightarrow>
                Dy (fit_to_max (Lanczos env) img) = 1600
                \<and> Dx (fit_to_max (Lanczos env) img) = max 1 ((1600 * Dx img) div Dy img)))"
proof (intro conjI impI)
  let ?out = "fit_to_max (Lanczos env) img"
  show "convertToWebP env data = Encode env ?out 82"
    using assms(1) by (cases "Encode env ?out 82") (simp_all add: convertToWebP_def)
  show "?out = img" if "Dx img \<le> 1600 \<and> Dy img \<le> 1600"
    using that by (simp add: fit_to_max_within)
  assume big: "1600 < Dx img \<or> 1600 < Dy img"
  note ex = fit_to_max_exceeds [OF assms(2,3) big, of "Lanczos env"]
  show l1: "Dx ?out = 1600" if "Dy img \<le> Dx img" using ex that by simp
  show l2: "Dy ?out = max 1 ((1600 * Dy img) div Dx img)" if "Dy img \<le> Dx img"
    using ex that by simp
  show p1: "Dy ?out = 1600" if "Dx img < Dy img" using ex that by simp
  show p2: "Dx ?out = max 1 ((1600 * Dx img) div Dy img)" if "Dx img < Dy img"
    using ex that by simp
  show "max (Dx ?out) (Dy ?out) = 1600"
  proof (cases "Dy img \<le> Dx img")
    case True
    with big have "1600 < Dx img" by auto
    from short_side_bounds [OF assms(3) True this] l1 [OF True] l2 [OF True]
    show ?thesis by simp
  next
    case False
    then have p: "Dx img < Dy img" by simp
    with big have "1600 < Dy img" by auto
    from short_side_bounds [OF assms(2) _ this] p p1 [OF p] p2 [OF p]
    show ?thesis by simp
  qed
  show "?out \<noteq> img"
  proof (cases "Dy img \<le> Dx img")
    case True
    with big have "1600 < Dx img" by auto
    with l1 [OF True] show ?thesis by auto
  next
    case False
    then have p: "Dx img < Dy img" by simp
    with big have "1600 < Dy img" by auto
    with p1 [OF p] show ?thesis by auto
  qed
qed

lemma sample_conversions:
  "convertToWebP sample_env ''JPEG 4000x3000'' = Inr ''WEBP 1600x1200 q82''
   \<and> convertToWebP sample_env ''PNG 800x600'' = Inr ''WEBP 800x600 q82''
   \<and> convertToWebP sample_env ''PNG 1000x5000'' = Inr ''WEBP 320x1600 q82''"
  by code_simp

theorem convertToWebP_fits_and_encodes_witness:
  "Decode sample_env ''JPEG 4000x3000'' = Inr big_jpeg \<and> 0 < Dx big_jpeg \<and> 0 < Dy big_jpeg
   \<and> (1600 < Dx big_jpeg \<or> 1600 < Dy big_jpeg) \<and> Dy big_jpeg \<le> Dx big_jpeg
   \<and> Dx (fit_to_max (Lanczos sample_env) big_jpeg) = 1600
   \<and> Dy (fit_to_max (Lanczos sample_env) big_jpeg) = 1200
   \<and> Decode sample_env ''PNG 800x600'' = Inr small_png \<and> 0 < Dx small_png \<and> 0 < Dy small_png
   \<and> Dx small_png \<le> 1600 \<and> Dy small_png \<le> 1600
   \<and> fit_to_max (Lanczos sample_env) small_png = small_png
   \<and> Decode sample_env ''PNG 1000x5000'' = Inr tall_png \<and> 0 < Dx tall_png \<and> 0 < Dy tall_png
   \<and> (1600 < Dx tall_png \<or> 1600 < Dy tall_png) \<and> Dx tall_png < Dy tall_png
   \<and> Dy (fit_to_max (Lanczos sample_env) tall_png) = 1600
   \<and> Dx (fit_to_max (Lanczos sample_env) tall_png) = 320
   \<and> convertToWebP sample_env ''JPEG 4000x3000'' = Inr ''WEBP 1600x1200 q82''"
proof -
  have d: "Decode sample_env ''JPEG 4000x3000'' = Inr big_jpeg"
    "Decode sample_env ''PNG 800x600'' = Inr small_png"
    "Decode sample_env ''PNG 1000x5000'' = Inr tall_png"
    by (simp_all add: sample_env_def)
  have b: "0 < Dx big_jpeg" "0 < Dy big_jpeg" "1600 < Dx big_jpeg \<or> 1600 < Dy big_jpeg"
    "Dy big_jpeg \<le> Dx big_jpeg" "(1600 * Dy big_jpeg) div Dx big_jpeg = 1200"
    by (simp_all add: big_jpeg_def)
  have s: "0 < Dx small_png" "0 < Dy small_png" "Dx small_png \<le> 1600" "Dy small_png \<le> 1600"
    by (simp_all add: small_png_def)
  have t: "0 < Dx tall_png" "0 < Dy tall_png" "1600 < Dx tall_png \<or> 1600 < Dy tall_png"
    "Dx tall_png < Dy tall_png" "(1600 * Dx tall_png) div Dy tall_png = 320"
    by (simp_all add: tall_png_def)
  from convertToWebP_fits_and_encodes [OF d(1) b(1,2)] b
  have 1: "Dx (fit_to_max (Lanczos sample_env) big_jpeg) = 1600"
    "Dy (fit_to_max (Lanczos sample_env) big_jpeg) = 1200" by simp_all
  from convertToWebP_fits_and_encodes [OF d(2) s(1,2)] s
  have 2: "fit_to_max (Lanczos sample_env) small_png = small_png" by simp
  from convertToWebP_fits_and_encodes [OF d(3) t(1,2)] t
  have 3: "Dy (fit_to_max (Lanczos sample_env) tall_png) = 1600"
    "Dx (fit_to_max (Lanczos sample_env) tall_png) = 320" by simp_all
  from d b(1-4) s t(1-4) 1 2 3 sample_conversions show ?thesis by blast
qed

section \<open>The worker cycle\<close>

lemma AddPicture_result:
  "AddPicture f fmt p db = (r, db') \<Longrightarrow>
     conversion_tasks db' = conversion_tasks db \<and> (r \<noteq> None \<longrightarrow> db' = db)"
  by (auto simp: AddPicture_def split: option.splits if_splits)

lemma UpdatePictureFile_result:
  "UpdatePictureFile f oldID newID newURL db = (r, db') \<Longrightarrow>
     conversion_tasks db' = conversion_tasks db \<and> (r \<noteq> None \<longrightarrow> db' = db)
     \<and> (r = None \<longrightarrow> pictures db' =
           map (\<lambda>r. if row_id r = oldID then r\<lparr>row_id := newID, row_url := newURL\<rparr> else r)
             (pictures db))"
  by (auto simp: UpdatePictureFile_def split: option.splits if_splits)

lemma store_converted_result:
  assumes "store_converted env task newID newPath processed db = (r, db', eff)"
  shows "conversion_tasks db' = conversion_tasks db \<and> (r \<noteq> None \<longrightarrow> db' = db)
     \<and> (\<forall>err. r = Some err \<longrightarrow> err \<noteq> [])"
proof (cases "is_reconversion task")
  case True
  then obtain oldID where o: "PictureID task = Some oldID" "oldID \<noteq> []"
    by (auto simp: is_reconversion_def split: option.splits)
  obtain r0 db0 where u: "UpdatePictureFile (UpdatePictureFile_fault env) oldID newID
      (''/uploads/'' @ newID) db = (r0, db0)" by (metis prod.exhaust)
  from UpdatePictureFile_result [OF u] assms o u show ?thesis
    by (cases r0) (auto simp: store_converted_def)
next
  case False
  obtain r0 db0 where a: "AddPicture (AddPicture_fault env) (Format_RFC3339 env)
      \<lparr>ID = newID, Filename = OriginalName task, URL = ''/uploads/'' @ newID,
       Likes = 0, UploadedAt = Now env\<rparr> db = (r0, db0)" by (metis prod.exhaust)
  from AddPicture_result [OF a] assms False a show ?thesis
    by (cases r0; cases "PictureID task") (auto simp: store_converted_def is_reconversion_def)
qed

lemma processConversionTask_result:
  assumes "processConversionTask env task db = (r, db', eff)"
  shows "conversion_tasks db' = conversion_tasks db \<and> (r \<noteq> None \<longrightarrow> db' = db)
     \<and> (\<forall>err. r = Some err \<longrightarrow> err \<noteq> [])"
proof (cases "ReadFile env (OriginalPath task)")
  case (Inl e)
  with assms show ?thesis by (auto simp: processConversionTask_def)
next
  case (Inr data)
  note rd = this
  show ?thesis
  proof (cases "convertToWebP env data")
    case (Inl e)
    with assms rd show ?thesis by (auto simp: processConversionTask_def)
  next
    case (Inr processed)
    note cv = this
    show ?thesis
    proof (cases "MkdirAll env uploadDir")
      case (Some e)
      with assms rd cv show ?thesis by (auto simp: processConversionTask_def)
    next
      case None
      note mk = this
      obtain newID newPath where nn: "new_name env task = (newID, newPath)"
        by (metis prod.exhaust)
      show ?thesis
      proof (cases "WriteFile env newPath processed")
        case (Some e)
        with assms rd cv mk nn show ?thesis by (auto simp: processConversionTask_def)
      next
        case None
        with assms rd cv mk nn
        have "store_converted env task newID newPath processed db = (r, db', eff)"
          by (simp add: processConversionTask_def)
        then show ?thesis by (rule store_converted_result)
      qed
    qed
  qed
qed

lemma ClaimNextTask_returns_row:
  assumes "ClaimNextTask cf now db = (Inr (Some task), db1)"
  shows "(\<exists>row\<in>set (conversion_tasks db1). task_ID row = task_ID task)
     \<and> pictures db1 = pictures db"
proof -
  from assms obtain t where "claim_finish cf now t db = (Inr (Some task), db1)"
    by (auto simp: ClaimNextTask_def split: sum.splits option.splits)
  from claim_finish_win [OF this]
  have w: "\<exists>row\<in>set (conversion_tasks db). task_ID row = task_ID task"
    and d: "db1 = snd (claim_update now (task_ID t) db)"
    by auto
  from w obtain row where "row \<in> set (conversion_tasks db)" "task_ID row = task_ID task"
    by blast
  then have "task_ID task \<in> set (map task_ID (conversion_tasks db))"
    by (metis image_eqI list.set_map)
  then have "task_ID task \<in> set (map task_ID (conversion_tasks db1))"
    unfolding d map_task_ID_claim_update .
  moreover have "pictures db1 = pictures db"
    unfolding d by (simp add: claim_update_def)
  ultimately show ?thesis by auto
qed

lemma task_state_MarkTaskFailed:
  "task_state (snd (MarkTaskFailed None now i msg db)) i
     = map (\<lambda>t. (Failed, Some msg)) (filter (\<lambda>t. task_ID t = i) (conversion_tasks db))
   \<and> pictures (snd (MarkTaskFailed None now i msg db)) = pictures db"
proof -
  have "map (\<lambda>t. (Status t, Error t)) (filter (\<lambda>t. task_ID t = i)
          (map (\<lambda>t. if task_ID t = i then t\<lparr>Status := Failed, Error := Some msg, UpdatedAt := now\<rparr> else t) ts))
      = map (\<lambda>t. (Failed, Some msg)) (filter (\<lambda>t. task_ID t = i) ts)"
    for ts :: "ConversionTask list"
    by (induction ts) auto
  then show ?thesis by (simp add: task_state_def MarkTaskFailed_def)
qed

lemma task_state_MarkTaskCompleted:
  "task_state (snd (MarkTaskCompleted None now i db)) i
     = map (\<lambda>t. (Completed, None)) (filter (\<lambda>t. task_ID t = i) (conversion_tasks db))
   \<and> pictures (snd (MarkTaskCompleted None now i db)) = pictures db"
proof -
  have "map (\<lambda>t. (Status t, Error t)) (filter (\<lambda>t. task_ID t = i)
          (map (\<lambda>t. if task_ID t = i then t\<lparr>Status := Completed, Error := None, UpdatedAt := now\<rparr> else t) ts))
      = map (\<lambda>t. (Completed, None)) (filter (\<lambda>t. task_ID t = i) ts)"
    for ts :: "ConversionTask list"
    by (induction ts) auto
  then show ?thesis by (simp add: task_state_def MarkTaskCompleted_def)
qed

lemma set_map_const: "xs \<noteq> [] \<Longrightarrow> set (map (\<lambda>_. c) xs) = {c}"
  by (cases xs) auto

lemma worker_cycle_Processed:
  assumes m: "Mark_fault env = None"
    and c: "ClaimNextTask (Claim_faults env) (Claim_now env) db = (Inr (Some task), db1)"
  shows "\<exists>db' eff. worker_cycle env db = (Processed task (fst (processConversionTask env task db1)), db', eff)
       \<and> set (task_state db' (task_ID task))
           = {(case fst (processConversionTask env task db1) of None \<Rightarrow> Completed | Some err \<Rightarrow> Failed,
               fst (processConversionTask env task db1))}
       \<and> (\<forall>err. fst (processConversionTask env task db1) = Some err \<longrightarrow>
             err \<noteq> [] \<and> pictures db' = pictures db)"
proof -
  obtain r db2 eff where p: "processConversionTask env task db1 = (r, db2, eff)"
    by (metis prod.exhaust)
  note pr = processConversionTask_result [OF p]
  note cl = ClaimNextTask_returns_row [OF c]
  from cl pr have ne: "filter (\<lambda>t. task_ID t = task_ID task) (conversion_tasks db2) \<noteq> []"
    by (auto simp: filter_empty_conv)
  show ?thesis
  proof (cases r)
    case None
    let ?db' = "snd (MarkTaskCompleted None (Mark_now env) (task_ID task) db2)"
    have w: "worker_cycle env db = (Processed task None, ?db', eff)"
      using c p None m by (simp add: worker_cycle_def)
    have s: "set (task_state ?db' (task_ID task)) = {(Completed, None)}"
      using ne by (simp add: task_state_MarkTaskCompleted set_map_const del: set_map)
    from w s p None show ?thesis by simp
  next
    case (Some err)
    let ?db' = "snd (MarkTaskFailed None (Mark_now env) (task_ID task) err db2)"
    have w: "worker_cycle env db = (Processed task (Some err), ?db', eff)"
      using c p Some m by (simp add: worker_cycle_def)
    have s: "set (task_state ?db' (task_ID task)) = {(Failed, Some err)}"
      using ne by (simp add: task_state_MarkTaskFailed set_map_const del: set_map)
    have pics: "pictures ?db' = pictures db"
      using pr cl Some by (simp add: task_state_MarkTaskFailed)
    from w s p Some pr pics show ?thesis by simp
  qed
qed

lemma processConversionTask_errors:
  "(\<forall>e. ReadFile env (OriginalPath task) = Inl e \<longrightarrow>
       fst (processConversionTask env task db) = Some (''read original: '' @ e))
   \<and> (\<forall>data e. ReadFile env (OriginalPath task) = Inr data \<longrightarrow> Decode env data = Inl e \<longrightarrow>
       fst (processConversionTask env task db) = Some (''convert to webp: '' @ e))
   \<and> (\<forall>data img e. ReadFile env (OriginalPath task) = Inr data \<longrightarrow> Decode env data = Inr img \<longrightarrow>
       Encode env (fit_to_max (Lanczos env) img) 82 = Inl e \<longrightarrow>
       fst (processConversionTask env task db) = Some (''convert to webp: '' @ e))
   \<and> (\<forall>data processed e. ReadFile env (OriginalPath task) = Inr data \<longrightarrow>
       convertToWebP env data = Inr processed \<longrightarrow> MkdirAll env uploadDir = None \<longrightarrow>
       WriteFile env (snd (new_name env task)) processed = Some e \<longrightarrow>
       fst (processConversionTask env task db) = Some (''write converted file: '' @ e))"
  by (simp add: processConversionTask_def convertToWebP_def split: prod.splits)

lemma worker_cycle_resolves:
  assumes "Mark_fault env = None"
    and "ClaimNextTask (Claim_faults env) (Claim_now env) db = (Inr (Some task), db1)"
  shows "\<exists>r db' eff.
       worker_cycle env db = (Processed task r, db', eff)
       \<and> r = fst (processConversionTask env task db1)
       \<and> set (task_state db' (task_ID task))
            = {(case r of None \<Rightarrow> Completed | Some err \<Rightarrow> Failed, r)}
       \<and> (\<forall>err. r = Some err \<longrightarrow> err \<noteq> [] \<and> pictures db' = pictures db)
       \<and> (\<forall>e. ReadFile env (OriginalPath task) = Inl e \<longrightarrow> r = Some (''read original: '' @ e))
       \<and> (\<forall>data e. ReadFile env (OriginalPath task) = Inr data \<longrightarrow> Decode env data = Inl e \<longrightarrow>
             r = Some (''convert to webp: '' @ e))
       \<and> (\<forall>data img e. ReadFile env (OriginalPath task) = Inr data \<longrightarrow> Decode env data = Inr img \<longrightarrow>
             Encode env (fit_to_max (Lanczos env) img) 82 = Inl e \<longrightarrow>
             r = Some (''convert to webp: '' @ e))
       \<and> (\<forall>data processed e. ReadFile env (OriginalPath task) = Inr data \<longrightarrow>
             convertToWebP env data = Inr processed \<longrightarrow> MkdirAll env uploadDir = None \<longrightarrow>
             WriteFile env (snd (new_name env task)) processed = Some e \<longrightarrow>
             r = Some (''write converted file: '' @ e))"
  using worker_cycle_Processed [OF assms] processConversionTask_errors [of env task db1]
  by blast

lemma same_rows_advanced_refl: "same_rows_advanced ts ts"
  by (simp add: same_rows_advanced_def tasks_advance_refl)

lemma same_rows_advanced_trans:
  "same_rows_advanced ts ts' \<Longrightarrow> same_rows_advanced ts' ts'' \<Longrightarrow> same_rows_advanced ts ts''"
  by (auto simp: same_rows_advanced_def intro: tasks_advance_trans)

lemma same_rows_advanced_terminal:
  assumes "same_rows_advanced ts ts'"
    and "\<forall>row\<in>set ts. task_ID row = i \<longrightarrow> status_rank (Status row) = 2"
  shows "\<forall>row'\<in>set ts'. task_ID row' = i \<longrightarrow> status_rank (Status row') = 2"
proof (intro ballI impI)
  fix row' assume "row' \<in> set ts'" and i: "task_ID row' = i"
  then obtain k where k: "k < length ts'" "ts' ! k = row'" by (auto simp: in_set_conv_nth)
  with assms(1) have kl: "k < length ts" by (simp add: same_rows_advanced_def)
  from assms(1) have "tasks_advance ts ts'" by (simp add: same_rows_advanced_def)
  from tasks_advance_nth [OF this kl] k i
  have "task_ID (ts ! k) = i" "status_rank (Status (ts ! k)) \<le> status_rank (Status row')"
    by simp_all
  moreover from kl have "ts ! k \<in> set ts" by simp
  ultimately have "2 \<le> status_rank (Status row')" using assms(2) by force
  with status_rank_le_2 [of "Status row'"] show "status_rank (Status row') = 2" by simp
qed

lemma status_rank_2: "status_rank s = 2 \<longleftrightarrow> s = Completed \<or> s = Failed"
  by (cases s) simp_all

lemma length_claim_finish:
  "length (conversion_tasks (snd (claim_finish cf now task db))) = length (conversion_tasks db)"
  using claim_finish_ids [of cf now task db] by (metis length_map)

lemma ClaimNextTask_same_rows:
  "same_rows_advanced (conversion_tasks db) (conversion_tasks (snd (ClaimNextTask cf now db)))"
  using claim_finish_advance length_claim_finish
  by (auto simp: ClaimNextTask_def same_rows_advanced_def tasks_advance_refl
      split: sum.splits option.splits)

lemma MarkTaskFailed_same_rows:
  "same_rows_advanced (conversion_tasks db) (conversion_tasks (snd (MarkTaskFailed f now i msg db)))"
  using MarkTaskFailed_advance [of db f now i msg] MarkTaskFailed_ids [of f now i msg db]
  by (metis same_rows_advanced_def length_map)

lemma MarkTaskCompleted_same_rows:
  "same_rows_advanced (conversion_tasks db) (conversion_tasks (snd (MarkTaskCompleted f now i db)))"
  using MarkTaskCompleted_advance [of db f now i] MarkTaskCompleted_ids [of f now i db]
  by (metis same_rows_advanced_def length_map)

lemma worker_cycle_same_rows:
  "same_rows_advanced (conversion_tasks db) (conversion_tasks (fst (snd (worker_cycle env db))))"
proof -
  obtain c db1 where c: "ClaimNextTask (Claim_faults env) (Claim_now env) db = (c, db1)"
    by (metis prod.exhaust)
  from ClaimNextTask_same_rows [of db "Claim_faults env" "Claim_now env"] c
  have a: "same_rows_advanced (conversion_tasks db) (conversion_tasks db1)" by simp
  show ?thesis
  proof (cases c)
    case (Inl e)
    with c a show ?thesis by (simp add: worker_cycle_def)
  next
    case (Inr ot)
    show ?thesis
    proof (cases ot)
      case None
      with c a Inr show ?thesis by (simp add: worker_cycle_def)
    next
      case (Some task)
      obtain r db2 eff where p: "processConversionTask env task db1 = (r, db2, eff)"
        by (metis prod.exhaust)
      from processConversionTask_result [OF p]
      have t: "conversion_tasks db2 = conversion_tasks db1" by simp
      show ?thesis
      proof (cases r)
        case None
        from MarkTaskCompleted_same_rows [of db2 "Mark_fault env" "Mark_now env" "task_ID task"] a t
        have "same_rows_advanced (conversion_tasks db) (conversion_tasks
            (snd (MarkTaskCompleted (Mark_fault env) (Mark_now env) (task_ID task) db2)))"
          by (metis same_rows_advanced_trans)
        with c Inr Some p None show ?thesis by (simp add: worker_cycle_def)
      next
        case (Some err)
        from MarkTaskFailed_same_rows [of db2 "Mark_fault env" "Mark_now env" "task_ID task" err] a t
        have "same_rows_advanced (conversion_tasks db) (conversion_tasks
            (snd (MarkTaskFailed (Mark_fault env) (Mark_now env) (task_ID task) err db2)))"
          by (metis same_rows_advanced_trans)
        with c Inr \<open>ot = Some task\<close> p Some show ?thesis by (simp add: worker_cycle_def)
      qed
    qed
  qed
qed

lemma worker_cycle_Processed_inv:
  assumes "worker_cycle env db = (Processed task r, db', eff)"
  shows "\<exists>db1. ClaimNextTask (Claim_faults env) (Claim_now env) db = (Inr (Some task), db1)"
  using assms
  by (auto simp: worker_cycle_def split: prod.splits sum.splits option.splits)

lemma startConversionWorker_no_task_left_processing:
  assumes "\<forall>env\<in>set envs. Mark_fault env = None"
  shows "same_rows_advanced (conversion_tasks db) (conversion_tasks (snd (startConversionWorker envs db)))
    \<and> (\<forall>task r. Processed task r \<in> set (fst (startConversionWorker envs db)) \<longrightarrow>
          (\<forall>row\<in>set (conversion_tasks (snd (startConversionWorker envs db))).
              task_ID row = task_ID task \<longrightarrow> Status row = Completed \<or> Status row = Failed))"
  using assms
proof (induction envs arbitrary: db)
  case Nil
  show ?case by (simp add: same_rows_advanced_refl)
next
  case (Cons env envs)
  obtain res db1 eff where w: "worker_cycle env db = (res, db1, eff)"
    by (metis prod.exhaust)
  obtain rs db2 where run: "startConversionWorker envs db1 = (rs, db2)"
    by (metis prod.exhaust)
  from Cons.prems have m: "Mark_fault env = None" and ms: "\<forall>env\<in>set envs. Mark_fault env = None"
    by simp_all
  from Cons.IH [OF ms, of db1] run
  have ih1: "same_rows_advanced (conversion_tasks db1) (conversion_tasks db2)"
    and ih2: "\<forall>task r. Processed task r \<in> set rs \<longrightarrow>
          (\<forall>row\<in>set (conversion_tasks db2).
              task_ID row = task_ID task \<longrightarrow> Status row = Completed \<or> Status row = Failed)"
    by simp_all
  from worker_cycle_same_rows [of db env] w
  have a: "same_rows_advanced (conversion_tasks db) (conversion_tasks db1)" by simp
  have first: "\<forall>row\<in>set (conversion_tasks db2).
              task_ID row = task_ID task \<longrightarrow> Status row = Completed \<or> Status row = Failed"
    if res: "res = Processed task r" for task r
  proof -
    from worker_cycle_Processed_inv w res obtain d where
      c: "ClaimNextTask (Claim_faults env) (Claim_now env) db = (Inr (Some task), d)"
      by blast
    from worker_cycle_Processed [OF m c] w obtain st r0 where
      ts: "set (task_state db1 (task_ID task)) = {(st, r0)}" and st: "st = Completed \<or> st = Failed"
      by (auto split: option.splits)
    have "\<forall>row\<in>set (conversion_tasks db1). task_ID row = task_ID task \<longrightarrow> status_rank (Status row) = 2"
    proof (intro ballI impI)
      fix row assume "row \<in> set (conversion_tasks db1)" "task_ID row = task_ID task"
      then have "(Status row, Error row) \<in> set (task_state db1 (task_ID task))"
        by (force simp: task_state_def)
      with ts st show "status_rank (Status row) = 2" by auto
    qed
    from same_rows_advanced_terminal [OF ih1 this]
    show ?thesis by (auto simp: status_rank_2)
  qed
  from w run a ih1 ih2 first show ?case
    by (auto intro: same_rows_advanced_trans)
qed

text \<open>
  What holds of the cycles in which the backend executes the statement that marks the task
  (\<open>worker_cycle_resolves\<close> and \<open>startConversionWorker_no_task_left_processing\<close> above): the
  cycle ends with every row of the claimed task \<^verbatim>\<open>completed\<close> with no error text if
  \<^verbatim>\<open>processConversionTask\<close> returned \<^verbatim>\<open>nil\<close>, and \<^verbatim>\<open>failed\<close> with the returned error as its
  text otherwise; that text is never empty, and on an error the picture table is the one
  before the cycle. The run below is an instance: three tasks are handed out, one is
  converted, one has bytes that do not decode, one has no file.
\<close>

lemma four_cycles_run:
  "fst (startConversionWorker four_cycles four_tasks)
    = [Processed (mk_task 3 ''uploads/original/3.jpg'' Pending 210) None,
       Processed (mk_task 4 ''uploads/original/4.jpg'' Pending 220)
         (Some ''convert to webp: image: unknown format''),
       Processed (mk_task 2 ''uploads/original/2.jpg'' Pending 230)
         (Some ''read original: open uploads/original/2.jpg: no such file or directory''),
       Idle]
   \<and> map (\<lambda>t. (Status t, Error t)) (conversion_tasks (snd (startConversionWorker four_cycles four_tasks)))
    = [(Completed, None),
       (Failed, Some ''read original: open uploads/original/2.jpg: no such file or directory''),
       (Completed, None),
       (Failed, Some ''convert to webp: image: unknown format'')]
   \<and> map row_id (pictures (snd (startConversionWorker four_cycles four_tasks)))
    = [''1730611800000000000.webp'']"
  by code_simp

lemma four_cycles_ids:
  "map task_ID (conversion_tasks (snd (startConversionWorker four_cycles four_tasks))) = [1, 2, 3, 4]"
  by code_simp

lemma first_cycle_claim:
  "fst (ClaimNextTask (Claim_faults sample_env) (Claim_now sample_env) four_tasks)
     = Inr (Some (mk_task 3 ''uploads/original/3.jpg'' Pending 210))"
  by code_simp

text \<open>
  Claim C2, at an input where it fails. The worker calls \<^verbatim>\<open>db.MarkTaskCompleted\<close> and
  \<^verbatim>\<open>db.MarkTaskFailed\<close> as statements and drops the error they return. In \<open>locked_env\<close> the
  backend refuses that UPDATE with \<^verbatim>\<open>database is locked\<close>. The first cycle on \<open>four_tasks\<close>
  claims task 3, converts it and stores the picture; the task is still \<^verbatim>\<open>processing\<close> when
  the cycle ends. The second cycle claims task 4, whose bytes do not decode; the task is
  still \<^verbatim>\<open>processing\<close> as well, and no error text is recorded. The third cycle goes on to
  task 2. No later cycle returns to a task that is \<^verbatim>\<open>processing\<close>: \<^verbatim>\<open>ClaimNextTask\<close> selects
  pending rows only.
\<close>

theorem worker_leaves_task_processing_when_mark_fails:
  "Mark_fault locked_env = Some ''database is locked''
   \<and> fst (worker_cycle locked_env four_tasks)
       = Processed (mk_task 3 ''uploads/original/3.jpg'' Pending 210) None
   \<and> task_state (fst (snd (worker_cycle locked_env four_tasks))) 3 = [(Processing, None)]
   \<and> map row_id (pictures (fst (snd (worker_cycle locked_env four_tasks))))
       = [''1730611800000000000.webp'']
   \<and> fst (worker_cycle locked_env (fst (snd (worker_cycle locked_env four_tasks))))
       = Processed (mk_task 4 ''uploads/original/4.jpg'' Pending 220)
           (Some ''convert to webp: image: unknown format'')
   \<and> task_state (fst (snd (worker_cycle locked_env
         (fst (snd (worker_cycle locked_env four_tasks)))))) 4 = [(Processing, None)]
   \<and> task_state (fst (snd (worker_cycle locked_env
         (fst (snd (worker_cycle locked_env four_tasks)))))) 3 = [(Processing, None)]
   \<and> fst (worker_cycle locked_env (fst (snd (worker_cycle locked_env
         (fst (snd (worker_cycle locked_env four_tasks)))))))
       = Processed (mk_task 2 ''uploads/original/2.jpg'' Pending 230)
           (Some ''read original: open uploads/original/2.jpg: no such file or directory'')"
proof -
  have "Mark_fault locked_env = Some ''database is locked''"
    by (simp add: locked_env_def)
  moreover have "fst (worker_cycle locked_env four_tasks)
       = Processed (mk_task 3 ''uploads/original/3.jpg'' Pending 210) None"
    by code_simp
  moreover have "task_state (fst (snd (worker_cycle locked_env four_tasks))) 3
       = [(Processing, None)]"
    by code_simp
  moreover have "map row_id (pictures (fst (snd (worker_cycle locked_env four_tasks))))
       = [''1730611800000000000.webp'']"
    by code_simp
  moreover have "fst (worker_cycle locked_env (fst (snd (worker_cycle locked_env four_tasks))))
       = Processed (mk_task 4 ''uploads/original/4.jpg'' Pending 220)
           (Some ''convert to webp: image: unknown format'')"
    by code_simp
  moreover have "task_state (fst (snd (worker_cycle locked_env
         (fst (snd (worker_cycle locked_env four_tasks)))))) 4 = [(Processing, None)]"
    by code_simp
  moreover have "task_state (fst (snd (worker_cycle locked_env
         (fst (snd (worker_cycle locked_env four_tasks)))))) 3 = [(Processing, None)]"
    by code_simp
  moreover have "fst (worker_cycle locked_env (fst (snd (worker_cycle locked_env
         (fst (snd (worker_cycle locked_env four_tasks)))))))
       = Processed (mk_task 2 ''uploads/original/2.jpg'' Pending 230)
           (Some ''read original: open uploads/original/2.jpg: no such file or directory'')"
    by code_simp
  ultimately show ?thesis
    by (intro conjI)
qed

section \<open>Re-conversion\<close>

lemma UpdatePictureFile_ok:
  assumes "UpdatePictureFile f oldID newID newURL db = (None, db')"
  shows "list_all2 (\<lambda>r r'. if row_id r = oldID
                           then r' = r\<lparr>row_id := newID, row_url := newURL\<rparr> else r' = r)
           (pictures db) (pictures db')
       \<and> conversion_tasks db' = conversion_tasks db"
  using assms
  by (auto simp: UpdatePictureFile_def list_all2_map2 list_all2_same split: option.splits if_splits)

lemma rename_keeps_columns:
  assumes "list_all2 (\<lambda>r r'. if row_id r = oldID
                           then r' = r\<lparr>row_id := newID, row_url := newURL\<rparr> else r' = r) rs rs'"
  shows "map row_likes rs' = map row_likes rs \<and> map row_uploaded_at rs' = map row_uploaded_at rs
       \<and> map row_filename rs' = map row_filename rs"
  using assms by (induction rs rs' rule: list_all2_induct) (auto split: if_splits)

lemma processConversionTask_success:
  assumes "processConversionTask env task db = (None, db', eff)"
  shows "\<exists>processed. store_converted env task (fst (new_name env task)) (snd (new_name env task))
            processed db = (None, db', eff)"
proof (cases "ReadFile env (OriginalPath task)")
  case (Inl e)
  with assms show ?thesis by (simp add: processConversionTask_def)
next
  case (Inr data)
  note rd = this
  show ?thesis
  proof (cases "convertToWebP env data")
    case (Inl e)
    with assms rd show ?thesis by (simp add: processConversionTask_def)
  next
    case (Inr processed)
    note cv = this
    show ?thesis
    proof (cases "MkdirAll env uploadDir")
      case (Some e)
      with assms rd cv show ?thesis by (simp add: processConversionTask_def)
    next
      case None
      note mk = this
      show ?thesis
      proof (cases "WriteFile env (snd (new_name env task)) processed")
        case (Some e)
        with assms rd cv mk show ?thesis
          by (simp add: processConversionTask_def split: prod.splits)
      next
        case None
        with assms rd cv mk show ?thesis
          by (auto simp: processConversionTask_def split: prod.splits)
      qed
    qed
  qed
qed

text \<open>
  Claim C8. When \<^verbatim>\<open>processConversionTask\<close> succeeds on a task that names an existing picture,
  the picture table afterwards has the same rows in the same places; the row with the old
  id has the new id and the URL built from it, and nothing else in it differs; every other
  row is unchanged. In particular the like counts, the upload times and the file names of
  all rows are what they were, and the task table is untouched.
\<close>

theorem reconversion_changes_only_id_and_url:
  assumes "processConversionTask env task db = (None, db', eff)"
    and "PictureID task = Some oldID" and "oldID \<noteq> []"
  shows "list_all2 (\<lambda>r r'. if row_id r = oldID
              then r' = r\<lparr>row_id := fst (new_name env task),
                            row_url := ''/uploads/'' @ fst (new_name env task)\<rparr>
              else r' = r)
           (pictures db) (pictures db')
     \<and> map row_likes (pictures db') = map row_likes (pictures db)
     \<and> map row_uploaded_at (pictures db') = map row_uploaded_at (pictures db)
     \<and> map row_filename (pictures db') = map row_filename (pictures db)
     \<and> conversion_tasks db' = conversion_tasks db"
proof -
  from processConversionTask_success [OF assms(1)] obtain processed where
    s: "store_converted env task (fst (new_name env task)) (snd (new_name env task))
            processed db = (None, db', eff)" by blast
  obtain r0 db0 where u: "UpdatePictureFile (UpdatePictureFile_fault env) oldID
      (fst (new_name env task)) (''/uploads/'' @ fst (new_name env task)) db = (r0, db0)"
    by (metis prod.exhaust)
  from s u assms(2,3) have "r0 = None \<and> db0 = db'"
    by (cases r0) (auto simp: store_converted_def)
  with u have "UpdatePictureFile (UpdatePictureFile_fault env) oldID
      (fst (new_name env task)) (''/uploads/'' @ fst (new_name env task)) db = (None, db')"
    by simp
  from UpdatePictureFile_ok [OF this] show ?thesis
    using rename_keeps_columns by blast
qed

lemma legacy_run:
  "processConversionTask legacy_env legacy_task legacy_store
     = (None, fst (snd (processConversionTask legacy_env legacy_task legacy_store)),
        snd (snd (processConversionTask legacy_env legacy_task legacy_store)))
   \<and> fst (new_name legacy_env legacy_task) = ''cat.webp''
   \<and> pictures (fst (snd (processConversionTask legacy_env legacy_task legacy_store)))
    = [\<lparr>row_id = ''cat.webp'', row_filename = ''my cat.png'', row_url = ''/uploads/cat.webp'',
        row_likes = 12, row_uploaded_at = ''2023-01-05T08:00:00Z''\<rparr>,
       \<lparr>row_id = ''dog.webp'', row_filename = ''dog.png'', row_url = ''/uploads/dog.webp'',
        row_likes = 3, row_uploaded_at = ''2023-02-05T08:00:00Z''\<rparr>]"
proof -
  have "fst (processConversionTask legacy_env legacy_task legacy_store) = None" by code_simp
  then have "processConversionTask legacy_env legacy_task legacy_store
     = (None, fst (snd (processConversionTask legacy_env legacy_task legacy_store)),
        snd (snd (processConversionTask legacy_env legacy_task legacy_store)))"
    by (metis prod.collapse)
  moreover have "fst (new_name legacy_env legacy_task) = ''cat.webp''" by code_simp
  moreover have "pictures (fst (snd (processConversionTask legacy_env legacy_task legacy_store)))
    = [\<lparr>row_id = ''cat.webp'', row_filename = ''my cat.png'', row_url = ''/uploads/cat.webp'',
        row_likes = 12, row_uploaded_at = ''2023-01-05T08:00:00Z''\<rparr>,
       \<lparr>row_id = ''dog.webp'', row_filename = ''dog.png'', row_url = ''/uploads/dog.webp'',
        row_likes = 3, row_uploaded_at = ''2023-02-05T08:00:00Z''\<rparr>]" by code_simp
  ultimately show ?thesis by blast
qed

theorem reconversion_changes_only_id_and_url_witness:
  "processConversionTask legacy_env legacy_task legacy_store
     = (None, fst (snd (processConversionTask legacy_env legacy_task legacy_store)),
        snd (snd (processConversionTask legacy_env legacy_task legacy_store)))
   \<and> PictureID legacy_task = Some ''cat.png'' \<and> ''cat.png'' \<noteq> []
   \<and> map row_likes (pictures (fst (snd (processConversionTask legacy_env legacy_task legacy_store))))
       = map row_likes (pictures legacy_store)
   \<and> map row_uploaded_at (pictures (fst (snd (processConversionTask legacy_env legacy_task legacy_store))))
       = map row_uploaded_at (pictures legacy_store)
   \<and> map row_filename (pictures (fst (snd (processConversionTask legacy_env legacy_task legacy_store))))
       = map row_filename (pictures legacy_store)
   \<and> map row_id (pictures (fst (snd (processConversionTask legacy_env legacy_task legacy_store))))
       = [''cat.webp'', ''dog.webp'']
   \<and> map row_likes (pictures legacy_store) = [12, 3]"
proof -
  have p: "PictureID legacy_task = Some ''cat.png''" by (simp add: legacy_task_def)
  have n: "''cat.png'' \<noteq> []" by simp
  have l: "map row_likes (pictures legacy_store) = [12, 3]" by (simp add: legacy_store_def)
  from legacy_run have r: "processConversionTask legacy_env legacy_task legacy_store
     = (None, fst (snd (processConversionTask legacy_env legacy_task legacy_store)),
        snd (snd (processConversionTask legacy_env legacy_task legacy_store)))" by blast
  from legacy_run have i: "map row_id (pictures (fst (snd (processConversionTask legacy_env legacy_task legacy_store))))
       = [''cat.webp'', ''dog.webp'']" by simp
  from reconversion_changes_only_id_and_url [OF r p n] p n l r i
  show ?thesis by blast
qed

end
